theory Spec2Isabelle
  imports Complex_Main "HOL-Library.Word"
begin

section \<open>Machine values and byte streams\<close>

text \<open>
  The engine of \<^verbatim>\<open>ecs.h\<close> keeps every component in a \<^verbatim>\<open>std::vector<uint8_t>\<close> and
  addresses it by a \<^verbatim>\<open>size_t\<close> offset. Entities are \<^verbatim>\<open>uint32_t\<close>, offsets and stored
  lengths are 64-bit \<^verbatim>\<open>size_t\<close> values whose arithmetic wraps, and the value
  \<^verbatim>\<open>(size_t)-1\<close> marks an absent component. Positions inside a vector are natural
  numbers. Indexing a vector out of range is undefined in C++; the embedding uses the
  list functions of HOL there, and every theorem below states the ranges it relies on.
\<close>

type_synonym byte = "8 word"
type_synonym entity = "32 word"
type_synonym size_t = "64 word"
type_synonym stream = "byte list"

text \<open>
  \<^verbatim>\<open>std::memcpy(&stream[index], src, n)\<close> with the source bytes given as a list. A
  copy that would write beyond the end of the stream has no defined behaviour in the
  source; here it leaves the stream as it is, and every fact below about a record
  assumes that the record lies inside its stream.
\<close>

definition memcpy :: "stream \<Rightarrow> nat \<Rightarrow> byte list \<Rightarrow> stream" where
  "memcpy stream index src =
     (if index + length src \<le> length stream
      then take index stream @ src @ drop (index + length src) stream
      else stream)"

text \<open>\<^verbatim>\<open>std::vector::resize(n)\<close>: truncate, or pad with value-initialised elements.\<close>

definition vector_resize :: "nat \<Rightarrow> 'a::zero list \<Rightarrow> 'a list" where
  "vector_resize n v = take n v @ replicate (n - length v) 0"

text \<open>The object representation of a \<^verbatim>\<open>size_t\<close>: eight bytes, least significant first.\<close>

fun le_bytes :: "nat \<Rightarrow> nat \<Rightarrow> byte list" where
  "le_bytes 0 x = []"
| "le_bytes (Suc k) x = of_nat (x mod 256) # le_bytes k (x div 256)"

fun le_nat :: "byte list \<Rightarrow> nat" where
  "le_nat [] = 0"
| "le_nat (b # bs) = unat b + 256 * le_nat bs"

definition bytes_of_size :: "size_t \<Rightarrow> byte list" where
  "bytes_of_size w = le_bytes 8 (unat w)"

definition size_of_bytes :: "byte list \<Rightarrow> size_t" where
  "size_of_bytes bs = of_nat (le_nat bs)"

text \<open>\<^verbatim>\<open>object::deserialize<size_t>(stream, index)\<close>.\<close>

definition deserialize_size :: "stream \<Rightarrow> nat \<Rightarrow> size_t" where
  "deserialize_size stream index = size_of_bytes (take 8 (drop index stream))"

definition bool_byte :: "bool \<Rightarrow> byte" where
  "bool_byte b = (if b then 1 else 0)"

text \<open>A \<^verbatim>\<open>char\<close> is one byte.\<close>

definition byte_of_char :: "char \<Rightarrow> byte" where
  "byte_of_char c = of_nat (of_char c)"

definition char_of_byte :: "byte \<Rightarrow> char" where
  "char_of_byte b = char_of (unat b)"

section \<open>The encoding protocol\<close>

text \<open>
  The templates of \<^verbatim>\<open>namespace object\<close> choose between two overloads by
  \<^verbatim>\<open>std::is_trivially_copyable<T>\<close>. A component type is described by its shape: a
  trivially copyable type of a given \<^verbatim>\<open>sizeof\<close>, \<^verbatim>\<open>std::string\<close>, or
  \<^verbatim>\<open>std::vector<T>\<close>; a value of a trivially copyable type is its object
  representation.
\<close>

datatype ctype = Trivial nat | String | Vector ctype

datatype cval = TrivialV "byte list" | StringV string | VectorV "cval list"

fun trivially_copyable :: "ctype \<Rightarrow> bool" where
  "trivially_copyable (Trivial n) = True"
| "trivially_copyable String = False"
| "trivially_copyable (Vector T) = False"

fun trivial_value :: "cval \<Rightarrow> bool" where
  "trivial_value (TrivialV bs) = True"
| "trivial_value (StringV d) = False"
| "trivial_value (VectorV d) = False"

text \<open>
  \<^verbatim>\<open>Serialization<T>::length\<close> and \<^verbatim>\<open>object::length\<close>. For a type without a
  specialisation \<^verbatim>\<open>Serialization<T>::length\<close> is \<^verbatim>\<open>defaultLengthSetter\<close>, which returns 0.
\<close>

fun Serialization_length :: "cval \<Rightarrow> nat" and object_length :: "cval \<Rightarrow> nat" where
  "Serialization_length (TrivialV bs) = 0"
| "Serialization_length (StringV data) = length data * 1 + 8"
| "Serialization_length (VectorV data) = sum_list (map object_length data) + 8"
| "object_length (TrivialV bs) = length bs"
| "object_length (StringV data) = Serialization_length (StringV data) + 8"
| "object_length (VectorV data) = Serialization_length (VectorV data) + 8"

text \<open>
  \<^verbatim>\<open>object::serialize\<close> and the two specialisations of \<^verbatim>\<open>Serialization<T>::serialize\<close>.
  The loops over the characters and over the elements carry the write position
  \<^verbatim>\<open>index + sizing + count\<close>.
\<close>

fun serialize_chars :: "string \<Rightarrow> stream \<Rightarrow> nat \<Rightarrow> stream" where
  "serialize_chars [] stream pos = stream"
| "serialize_chars (v # vs) stream pos = serialize_chars vs (memcpy stream pos [byte_of_char v]) (pos + 1)"

fun object_serialize :: "cval \<Rightarrow> stream \<Rightarrow> nat \<Rightarrow> nat \<Rightarrow> stream"
  and Serialization_serialize :: "cval \<Rightarrow> stream \<Rightarrow> nat \<Rightarrow> stream"
  and serialize_elements :: "cval list \<Rightarrow> stream \<Rightarrow> nat \<Rightarrow> stream"
where
  "object_serialize (TrivialV bs) stream index len = memcpy stream index (take len bs)"
| "object_serialize (StringV d) stream index len =
     Serialization_serialize (StringV d) (memcpy stream index (bytes_of_size (of_nat len))) (index + 8)"
| "object_serialize (VectorV d) stream index len =
     Serialization_serialize (VectorV d) (memcpy stream index (bytes_of_size (of_nat len))) (index + 8)"
| "Serialization_serialize (TrivialV bs) stream index = stream"
| "Serialization_serialize (StringV d) stream index =
     serialize_chars d (memcpy stream index (bytes_of_size (of_nat (length d)))) (index + 8)"
| "Serialization_serialize (VectorV d) stream index =
     serialize_elements d (memcpy stream index (bytes_of_size (of_nat (length d)))) (index + 8)"
| "serialize_elements [] stream pos = stream"
| "serialize_elements (variable # rest) stream pos =
     serialize_elements rest (object_serialize variable stream pos (object_length variable))
       (pos + object_length variable)"

text \<open>
  \<^verbatim>\<open>object::deserialize\<close> and the specialisations of \<^verbatim>\<open>Serialization<T>::deserialize\<close>.
  The loops run \<^verbatim>\<open>size\<close> times (the counter is an \<^verbatim>\<open>int\<close>, so this is the behaviour
  for sizes below \<^verbatim>\<open>2^31\<close>).
\<close>

fun deserialize_chars :: "stream \<Rightarrow> nat \<Rightarrow> nat \<Rightarrow> string" where
  "deserialize_chars stream pos 0 = []"
| "deserialize_chars stream pos (Suc n) = char_of_byte (stream ! pos) # deserialize_chars stream (pos + 1) n"

fun object_deserialize :: "ctype \<Rightarrow> stream \<Rightarrow> nat \<Rightarrow> cval"
  and Serialization_deserialize :: "ctype \<Rightarrow> stream \<Rightarrow> nat \<Rightarrow> cval"
  and deserialize_elements :: "ctype \<Rightarrow> stream \<Rightarrow> nat \<Rightarrow> nat \<Rightarrow> cval list"
where
  "object_deserialize (Trivial n) stream index = TrivialV (take n (drop index stream))"
| "object_deserialize String stream index = Serialization_deserialize String stream (index + 8)"
| "object_deserialize (Vector T) stream index = Serialization_deserialize (Vector T) stream (index + 8)"
| "Serialization_deserialize (Trivial n) stream index = TrivialV (replicate n 0)"
| "Serialization_deserialize String stream index =
     StringV (deserialize_chars stream (index + 8) (unat (deserialize_size stream index)))"
| "Serialization_deserialize (Vector T) stream index =
     VectorV (deserialize_elements T stream (index + 8) (unat (deserialize_size stream index)))"
| "deserialize_elements T stream pos 0 = []"
| "deserialize_elements T stream pos (Suc n) =
     object_deserialize T stream pos
       # deserialize_elements T stream (pos + object_length (object_deserialize T stream pos)) n"

text \<open>
  \<^verbatim>\<open>object::resize<T>\<close> for a type that is not trivially copyable: the result is the
  returned difference and the stream. The trivially copyable overload returns 0 and
  leaves the stream alone.
\<close>

definition object_resize :: "nat \<Rightarrow> stream \<Rightarrow> nat \<Rightarrow> size_t \<times> stream" where
  "object_resize len stream index =
     (let original = deserialize_size stream index;
          offset = of_nat len - original;
          copy = stream
      in if original < of_nat len then
           (offset,
            memcpy (vector_resize (unat (of_nat (length stream) + offset)) stream) (index + len)
              (drop (index + unat original) copy))
         else if original > of_nat len then
           (offset,
            vector_resize (unat (of_nat (length stream) + offset))
              (memcpy stream (index + len) (drop (index + unat original) copy)))
         else (offset, stream))"

section \<open>Component pools\<close>

text \<open>
  \<^verbatim>\<open>struct ComponentArray\<close>: byte 0 holds the flag "not trivially copyable", the next
  \<^verbatim>\<open>componentSize\<close> bytes are the zeroed default component, the records follow.
  The functions that set the static \<^verbatim>\<open>ecs::error\<close> return the code they store, if any.
\<close>

record ComponentArray =
  componentSize :: nat
  m_components :: stream

definition ComponentArray_new :: "nat \<Rightarrow> bool \<Rightarrow> ComponentArray" where
  "ComponentArray_new size_T complexity =
     \<lparr>componentSize = size_T,
      m_components = memcpy (vector_resize (1 + size_T) []) 0 [bool_byte (\<not> complexity)]\<rparr>"

definition ComponentArray_complex :: "ComponentArray \<Rightarrow> bool" where
  "ComponentArray_complex ca = (m_components ca ! 0 \<noteq> 0)"

definition overwrite :: "size_t \<Rightarrow> ComponentArray \<Rightarrow> size_t \<times> ComponentArray" where
  "overwrite index ca =
     (let m = m_components ca;
          offset = (if ComponentArray_complex ca then deserialize_size m (unat index) + 8
                    else of_nat (componentSize ca));
          m1 = memcpy m (unat index) (drop (unat index + unat offset) m);
          m2 = vector_resize (unat (of_nat (length m) - offset)) m1
      in (offset, ca\<lparr>m_components := m2\<rparr>))"

text \<open>
  \<^verbatim>\<open>ComponentArray::addComponent\<close>, both overloads; \<^verbatim>\<open>index\<close> is the entity's
  index-map entry, passed by reference and returned here.
\<close>

definition ComponentArray_addComponent ::
  "cval \<Rightarrow> size_t \<Rightarrow> ComponentArray \<Rightarrow> 16 word option \<times> size_t \<times> ComponentArray" where
  "ComponentArray_addComponent component index ca =
     (if index \<noteq> - 1 then (Some 1, index, ca)
      else
        let m = m_components ca; arraySize = length m
        in if trivial_value component then
             (None, of_nat arraySize,
              ca\<lparr>m_components :=
                   object_serialize component
                     (vector_resize (arraySize + object_length component) m) arraySize
                     (object_length component)\<rparr>)
           else
             let len = Serialization_length component
             in (None, of_nat arraySize,
                 ca\<lparr>m_components :=
                      object_serialize component (vector_resize (arraySize + 8 + len) m) arraySize len\<rparr>))"

text \<open>\<^verbatim>\<open>getDefaultComponent\<close>: the bytes of the default slot.\<close>

definition getDefaultComponent :: "ComponentArray \<Rightarrow> cval" where
  "getDefaultComponent ca = TrivialV (take (componentSize ca) (drop 1 (m_components ca)))"

text \<open>
  \<^verbatim>\<open>ComponentArray::getComponent\<close>. The overload for types that are not trivially
  copyable records the error and then reads at the given index all the same.
\<close>

definition ComponentArray_getComponent ::
  "ctype \<Rightarrow> size_t \<Rightarrow> ComponentArray \<Rightarrow> 16 word option \<times> cval" where
  "ComponentArray_getComponent T index ca =
     (if trivially_copyable T then
        (if index = - 1 then (Some 2, getDefaultComponent ca)
         else (None, object_deserialize T (m_components ca) (unat index)))
      else
        ((if index = - 1 then Some 2 else None),
         object_deserialize T (m_components ca) (unat index)))"

definition ComponentArray_setComponent ::
  "cval \<Rightarrow> size_t \<Rightarrow> ComponentArray \<Rightarrow> 16 word option \<times> size_t \<times> ComponentArray" where
  "ComponentArray_setComponent update index ca =
     (if index = - 1 then (Some 2, 0, ca)
      else
        let len = object_length update;
            (offset, m1) = (if trivial_value update then (0, m_components ca)
                            else object_resize len (m_components ca) (unat index))
        in (None, offset, ca\<lparr>m_components := object_serialize update m1 (unat index) len\<rparr>))"

section \<open>The component manager\<close>

record ComponentManager =
  m_componentArrays :: "ComponentArray list"
  m_indexMaps :: "size_t list list"

text \<open>
  The constructor and \<^verbatim>\<open>update\<close> read the static \<^verbatim>\<open>idCount\<close>, \<^verbatim>\<open>spaceBuffer\<close> and
  \<^verbatim>\<open>complexBuffer\<close>, which are arguments here.
\<close>

definition ComponentManager_new :: "nat \<Rightarrow> nat list \<Rightarrow> bool list \<Rightarrow> nat \<Rightarrow> ComponentManager" where
  "ComponentManager_new idCount space cplx numberOfEntities =
     \<lparr>m_componentArrays = map (\<lambda>i. ComponentArray_new (space ! i) (cplx ! i)) [0..<idCount],
      m_indexMaps = replicate idCount (replicate numberOfEntities 0)\<rparr>"

definition ComponentManager_addEntity :: "nat \<Rightarrow> ComponentManager \<Rightarrow> ComponentManager" where
  "ComponentManager_addEntity idCount cm =
     cm\<lparr>m_indexMaps := fold (\<lambda>i maps. maps[i := maps ! i @ [- 1]]) [0..<idCount] (m_indexMaps cm)\<rparr>"

definition ComponentManager_update ::
  "nat \<Rightarrow> nat list \<Rightarrow> bool list \<Rightarrow> nat \<Rightarrow> ComponentManager \<Rightarrow> ComponentManager" where
  "ComponentManager_update idCount space cplx numberOfEntities cm =
     (let k = idCount - length (m_indexMaps cm)
      in cm\<lparr>m_indexMaps := m_indexMaps cm @ replicate k (replicate numberOfEntities 0),
             m_componentArrays := m_componentArrays cm
               @ replicate k (ComponentArray_new (space ! (idCount - 1)) (cplx ! (idCount - 1)))\<rparr>)"

text \<open>The private \<^verbatim>\<open>ComponentManager::remove(id, index, e)\<close>.\<close>

definition ComponentManager_remove :: "nat \<Rightarrow> size_t \<Rightarrow> entity \<Rightarrow> ComponentManager \<Rightarrow> ComponentManager" where
  "ComponentManager_remove tid index e cm =
     (let (offset, array) = overwrite index (m_componentArrays cm ! tid);
          map1 = (m_indexMaps cm ! tid)[unat e := - 1];
          map2 = map (\<lambda>x. if x > index \<and> x \<noteq> - 1 then x - offset else x) map1
      in cm\<lparr>m_componentArrays := (m_componentArrays cm)[tid := array],
             m_indexMaps := (m_indexMaps cm)[tid := map2]\<rparr>)"

definition ComponentManager_removeEntity :: "nat \<Rightarrow> entity \<Rightarrow> ComponentManager \<Rightarrow> ComponentManager" where
  "ComponentManager_removeEntity idCount e cm =
     fold (\<lambda>tid cm'. let index = m_indexMaps cm' ! tid ! unat e
                     in if index = - 1 then cm' else ComponentManager_remove tid index e cm')
       [0..<idCount] cm"

definition ComponentManager_addComponent ::
  "nat \<Rightarrow> cval \<Rightarrow> entity \<Rightarrow> ComponentManager \<Rightarrow> 16 word option \<times> ComponentManager" where
  "ComponentManager_addComponent tid component e cm =
     (let (err, index, array) =
            ComponentArray_addComponent component (m_indexMaps cm ! tid ! unat e) (m_componentArrays cm ! tid)
      in (err, cm\<lparr>m_componentArrays := (m_componentArrays cm)[tid := array],
                   m_indexMaps := (m_indexMaps cm)[tid := (m_indexMaps cm ! tid)[unat e := index]]\<rparr>))"

text \<open>
  \<^verbatim>\<open>ComponentManager::getComponent\<close>: entity \<^verbatim>\<open>(entity)-1\<close> reads the default slot. (In the
  overload for types that are not trivially copyable the parameter is itself called
  \<^verbatim>\<open>entity\<close>, so the test \<^verbatim>\<open>entity == (entity)-1\<close> compares it with its predecessor
  and never holds.)
\<close>

definition ComponentManager_getComponent ::
  "ctype \<Rightarrow> nat \<Rightarrow> entity \<Rightarrow> ComponentManager \<Rightarrow> 16 word option \<times> cval" where
  "ComponentManager_getComponent T tid e cm =
     (if trivially_copyable T \<and> e = - 1 then (None, getDefaultComponent (m_componentArrays cm ! tid))
      else ComponentArray_getComponent T (m_indexMaps cm ! tid ! unat e) (m_componentArrays cm ! tid))"

definition ComponentManager_containsComponent :: "nat \<Rightarrow> entity \<Rightarrow> ComponentManager \<Rightarrow> bool" where
  "ComponentManager_containsComponent tid e cm = (m_indexMaps cm ! tid ! unat e \<noteq> - 1)"

definition ComponentManager_removeComponent ::
  "ctype \<Rightarrow> nat \<Rightarrow> entity \<Rightarrow> ComponentManager \<Rightarrow> 16 word option \<times> ComponentManager" where
  "ComponentManager_removeComponent T tid e cm =
     (let (err, result) = ComponentManager_getComponent T tid e cm;
          index = m_indexMaps cm ! tid ! unat e
      in (err, ComponentManager_remove tid index e cm))"

definition share :: "ctype \<Rightarrow> nat \<Rightarrow> entity \<Rightarrow> entity \<Rightarrow> ComponentManager \<Rightarrow> 16 word option \<times> ComponentManager" where
  "share T tid e donor cm =
     (let (err, cm1) = (if m_indexMaps cm ! tid ! unat e \<noteq> - 1
                        then ComponentManager_removeComponent T tid e cm else (None, cm))
      in (err, cm1\<lparr>m_indexMaps :=
                     (m_indexMaps cm1)[tid := (m_indexMaps cm1 ! tid)[unat e := m_indexMaps cm1 ! tid ! unat donor]]\<rparr>))"

definition ComponentManager_setComponent ::
  "nat \<Rightarrow> cval \<Rightarrow> entity \<Rightarrow> ComponentManager \<Rightarrow> 16 word option \<times> ComponentManager" where
  "ComponentManager_setComponent tid update e cm =
     (let index = m_indexMaps cm ! tid ! unat e;
          (err, offset, array) = ComponentArray_setComponent update index (m_componentArrays cm ! tid)
      in (err, cm\<lparr>m_componentArrays := (m_componentArrays cm)[tid := array],
                   m_indexMaps := (m_indexMaps cm)
                     [tid := map (\<lambda>x. if x > index then x + offset else x) (m_indexMaps cm ! tid)]\<rparr>))"

section \<open>The entity manager\<close>

record EntityManager =
  m_entityCount :: entity
  m_removedEntities :: "entity list"
  m_componentBitmaps :: "bool list list"

definition EntityManager_new :: EntityManager where
  "EntityManager_new = \<lparr>m_entityCount = 0, m_removedEntities = [], m_componentBitmaps = []\<rparr>"

definition totalEntityCount :: "EntityManager \<Rightarrow> entity" where
  "totalEntityCount em = m_entityCount em + of_nat (length (m_removedEntities em))"

definition activeEntityCount :: "EntityManager \<Rightarrow> entity" where
  "activeEntityCount em = m_entityCount em"

definition EntityManager_contains :: "entity \<Rightarrow> EntityManager \<Rightarrow> bool" where
  "EntityManager_contains e em = (totalEntityCount em > e)"

definition getBitmap :: "entity \<Rightarrow> EntityManager \<Rightarrow> bool list" where
  "getBitmap e em = m_componentBitmaps em ! unat e"

definition entityActive :: "entity \<Rightarrow> EntityManager \<Rightarrow> bool" where
  "entityActive e em = last (m_componentBitmaps em ! unat e)"

definition setComponentBit :: "entity \<Rightarrow> nat \<Rightarrow> bool \<Rightarrow> EntityManager \<Rightarrow> EntityManager" where
  "setComponentBit e index b em =
     em\<lparr>m_componentBitmaps :=
          (m_componentBitmaps em)[unat e := (m_componentBitmaps em ! unat e)[index := b]]\<rparr>"

definition EntityManager_createEntity :: "nat \<Rightarrow> EntityManager \<Rightarrow> entity \<times> EntityManager" where
  "EntityManager_createEntity idCount em =
     (let fresh = m_entityCount em;
          em1 = em\<lparr>m_entityCount := m_entityCount em + 1\<rparr>;
          (e, em2) =
            (if m_removedEntities em1 \<noteq> []
             then (last (m_removedEntities em1),
                   em1\<lparr>m_removedEntities := butlast (m_removedEntities em1)\<rparr>)
             else (fresh,
                   em1\<lparr>m_componentBitmaps := m_componentBitmaps em1 @ [replicate (idCount + 1) False]\<rparr>));
          bitmap = m_componentBitmaps em2 ! unat e
      in (e, em2\<lparr>m_componentBitmaps :=
                   (m_componentBitmaps em2)[unat e := bitmap[length bitmap - 1 := True]]\<rparr>))"

definition EntityManager_removeEntity :: "nat \<Rightarrow> entity \<Rightarrow> EntityManager \<Rightarrow> EntityManager" where
  "EntityManager_removeEntity idCount e em =
     em\<lparr>m_componentBitmaps := (m_componentBitmaps em)[unat e := replicate (idCount + 1) False],
        m_removedEntities := m_removedEntities em @ [e],
        m_entityCount := m_entityCount em - 1\<rparr>"

section \<open>Systems\<close>

text \<open>
  \<^verbatim>\<open>struct system\<close>. A callback is named by a number, 0 being the empty lambda that the
  constructor and \<^verbatim>\<open>createFunction\<close> install. The instance of a system is kept as its
  object representation (the overload of \<^verbatim>\<open>initialize\<close> for trivially copyable types).
\<close>

record system =
  m_initialized :: bool
  m_instance :: stream
  m_functions :: "nat list"

definition system_new :: "nat \<Rightarrow> system" where
  "system_new functionSize =
     \<lparr>m_initialized = False, m_instance = [], m_functions = replicate functionSize 0\<rparr>"

definition initialize :: "byte list \<Rightarrow> system \<Rightarrow> system" where
  "initialize inst st =
     st\<lparr>m_initialized := True,
        m_instance := object_serialize (TrivialV inst) (vector_resize (length inst) (m_instance st)) 0
                        (length inst)\<rparr>"

definition initialized :: "system \<Rightarrow> bool" where
  "initialized st = m_initialized st"

definition createFunction :: "system \<Rightarrow> system" where
  "createFunction st = st\<lparr>m_functions := m_functions st @ [0]\<rparr>"

definition setFunction :: "8 word \<Rightarrow> nat \<Rightarrow> system \<Rightarrow> system" where
  "setFunction index f st = st\<lparr>m_functions := (m_functions st)[unat index := f]\<rparr>"

text \<open>
  \<^verbatim>\<open>struct SystemSupplement\<close>. The field \<^verbatim>\<open>index\<close> points to the static
  \<^verbatim>\<open>SystemType<T>::id\<close> of the system's type; it is the name of that type, or
  \<open>None\<close> for \<^verbatim>\<open>NULL\<close>. Priorities are \<^verbatim>\<open>float\<close>s, compared here as real numbers.
  The constructor leaves \<^verbatim>\<open>priority\<close> uninitialised: the field is \<open>None\<close> until
  \<^verbatim>\<open>createSystem\<close> assigns it.
\<close>

record SystemSupplement =
  priority :: "real option"
  index_ref :: "nat option"
  requirement :: "nat list"
  indexMap :: "size_t list"
  entities :: "entity list"
  insertion :: "entity \<Rightarrow> entity list \<Rightarrow> size_t list \<Rightarrow> entity list \<times> size_t list"

definition default_insertion :: "entity \<Rightarrow> entity list \<Rightarrow> size_t list \<Rightarrow> entity list \<times> size_t list" where
  "default_insertion e ents mp = (ents @ [e], mp[unat e := of_nat (length ents)])"

definition SystemSupplement_new :: "nat \<Rightarrow> SystemSupplement" where
  "SystemSupplement_new numberOfEntities =
     \<lparr>priority = None, index_ref = None, requirement = [],
      indexMap = replicate numberOfEntities 0, entities = [], insertion = default_insertion\<rparr>"

definition insert_entity :: "entity \<Rightarrow> SystemSupplement \<Rightarrow> SystemSupplement" where
  "insert_entity e supp =
     (let (ents, mp) = insertion supp e (entities supp) (indexMap supp)
      in supp\<lparr>entities := ents, indexMap := mp\<rparr>)"

definition extract_entity :: "entity \<Rightarrow> SystemSupplement \<Rightarrow> SystemSupplement" where
  "extract_entity e supp =
     (let revSize = length (entities supp);
          lst = entities supp ! (revSize - 1);
          ents = (entities supp)[unat (indexMap supp ! unat e) := lst];
          mp = (indexMap supp)[unat lst := indexMap supp ! unat e]
      in supp\<lparr>entities := butlast ents, indexMap := mp[unat e := - 1]\<rparr>)"

record SystemManager =
  m_stores :: "system list"
  m_supplements :: "SystemSupplement list"

definition SystemManager_new :: "nat \<Rightarrow> 8 word \<Rightarrow> nat \<Rightarrow> SystemManager" where
  "SystemManager_new idCount fIndex numberOfEntities =
     \<lparr>m_stores = replicate idCount (system_new (unat fIndex)),
      m_supplements = replicate idCount (SystemSupplement_new numberOfEntities)\<rparr>"

text \<open>
  \<^verbatim>\<open>runFunction\<close> calls the callback in slot \<^verbatim>\<open>index\<close> of every initialised system,
  in the order of \<^verbatim>\<open>m_stores\<close>. Callbacks are user code; the model returns the calls
  made, each as the position of the system and the callback it holds.
\<close>

definition runFunction :: "8 word \<Rightarrow> SystemManager \<Rightarrow> (nat \<times> nat) list" where
  "runFunction index sm =
     map (\<lambda>i. (i, m_functions (m_stores sm ! i) ! unat index))
       (filter (\<lambda>i. initialized (m_stores sm ! i)) [0..<length (m_stores sm)])"

definition bitmapMatches :: "nat \<Rightarrow> bool list \<Rightarrow> SystemManager \<Rightarrow> bool" where
  "bitmapMatches index bitmap sm =
     (let req = requirement (m_supplements sm ! index)
      in if req = [] then False else list_all (\<lambda>r. bitmap ! r) req)"

fun requirement_loop :: "bool list \<Rightarrow> nat \<Rightarrow> nat list \<Rightarrow> bool \<Rightarrow> bool" where
  "requirement_loop bitmap cbit [] valid = valid"
| "requirement_loop bitmap cbit (req # rest) valid =
     (if \<not> bitmap ! req then False else requirement_loop bitmap cbit rest (valid \<or> req = cbit))"

definition bitmapMatches_bit :: "nat \<Rightarrow> bool list \<Rightarrow> nat \<Rightarrow> SystemManager \<Rightarrow> bool" where
  "bitmapMatches_bit index bitmap cbit sm =
     (let req = requirement (m_supplements sm ! index)
      in if req = [] then False else requirement_loop bitmap cbit req False)"

definition setInsertion ::
  "nat \<Rightarrow> (entity \<Rightarrow> entity list \<Rightarrow> size_t list \<Rightarrow> entity list \<times> size_t list) \<Rightarrow> SystemManager \<Rightarrow> SystemManager" where
  "setInsertion index ins sm =
     sm\<lparr>m_supplements := (m_supplements sm)[index := (m_supplements sm ! index)\<lparr>insertion := ins\<rparr>]\<rparr>"

definition SystemManager_addEntity :: "nat \<Rightarrow> SystemManager \<Rightarrow> SystemManager" where
  "SystemManager_addEntity idCount sm =
     sm\<lparr>m_supplements :=
          fold (\<lambda>i sups. sups[i := (sups ! i)\<lparr>indexMap := indexMap (sups ! i) @ [- 1]\<rparr>])
            [0..<idCount] (m_supplements sm)\<rparr>"

definition insertEntity :: "entity \<Rightarrow> nat \<Rightarrow> SystemManager \<Rightarrow> SystemManager" where
  "insertEntity e index sm =
     sm\<lparr>m_supplements := (m_supplements sm)[index := insert_entity e (m_supplements sm ! index)]\<rparr>"

definition extractEntity :: "nat \<Rightarrow> entity \<Rightarrow> bool list \<Rightarrow> SystemManager \<Rightarrow> SystemManager" where
  "extractEntity idCount e bitmap sm =
     fold (\<lambda>i sm'. if bitmapMatches i bitmap sm'
                    then sm'\<lparr>m_supplements := (m_supplements sm')[i := extract_entity e (m_supplements sm' ! i)]\<rparr>
                    else sm')
       [0..<idCount] sm"

text \<open>
  \<^verbatim>\<open>componentRemoved\<close> repeats the statements of \<^verbatim>\<open>SystemSupplement::extract\<close> for
  every system that matches and requires the removed bit.
\<close>

definition componentRemoved :: "nat \<Rightarrow> entity \<Rightarrow> nat \<Rightarrow> bool list \<Rightarrow> SystemManager \<Rightarrow> SystemManager" where
  "componentRemoved idCount e cbit bitmap sm =
     fold (\<lambda>i sm'. if bitmapMatches_bit i bitmap cbit sm'
                    then sm'\<lparr>m_supplements := (m_supplements sm')[i := extract_entity e (m_supplements sm' ! i)]\<rparr>
                    else sm')
       [0..<idCount] sm"

definition containsFunction :: "32 word \<Rightarrow> 8 word \<Rightarrow> bool" where
  "containsFunction index fIndex = (index < ucast fIndex)"

definition SystemManager_createSystemFunction :: "SystemManager \<Rightarrow> SystemManager" where
  "SystemManager_createSystemFunction sm = sm\<lparr>m_stores := map createFunction (m_stores sm)\<rparr>"

definition SystemManager_update :: "nat \<Rightarrow> 8 word \<Rightarrow> nat \<Rightarrow> SystemManager \<Rightarrow> SystemManager" where
  "SystemManager_update idCount fIndex numberOfEntities sm =
     (let k = idCount - length (m_supplements sm)
      in sm\<lparr>m_stores := m_stores sm @ replicate k (system_new (unat fIndex)),
             m_supplements := m_supplements sm @ replicate k (SystemSupplement_new numberOfEntities)\<rparr>)"

text \<open>
  The \<^verbatim>\<open>do ... while\<close> loop of \<^verbatim>\<open>createSystem\<close> on its \<^verbatim>\<open>uint32_t\<close> variables; one
  call is one pass through the body, entered with the current \<^verbatim>\<open>index\<close> and
  \<^verbatim>\<open>total\<close>. The loop reads the priority of slot \<^verbatim>\<open>total\<close>; where no system was
  created in that slot the value read is indeterminate, and the result is \<open>None\<close>.
\<close>

function search_slot :: "real option list \<Rightarrow> real \<Rightarrow> 32 word \<Rightarrow> 32 word \<Rightarrow> 32 word \<Rightarrow> 32 word option" where
  "search_slot priorities prio sid index tot =
     (case priorities ! unat tot of
        None \<Rightarrow> None
      | Some p \<Rightarrow>
          (let buffer = index;
               index' = index div 2;
               tot' = (if p > prio then tot - (index' + buffer mod 2)
                       else (let t = tot + (index' + buffer mod 2)
                             in if index' = 0 then t + sid mod 2 else t))
           in if index' \<noteq> 0 then search_slot priorities prio sid index' tot' else Some tot'))"
  by pat_completeness auto
termination
  apply (relation "measure (\<lambda>(priorities, prio, sid, index, tot). unat index)")
   apply simp
  apply (auto simp add: unat_div)
  apply (metis div_less_dividend one_less_numeral_iff semiring_norm(76) unat_gt_0 unat_div unat_eq_zero div_0 unsigned_numeral)
  done

declare search_slot.simps [simp del]

definition moveTo :: "nat \<Rightarrow> nat \<Rightarrow> SystemManager \<Rightarrow> SystemManager" where
  "moveTo src dst sm =
     sm\<lparr>m_stores := (m_stores sm)[dst := m_stores sm ! src],
        m_supplements := (m_supplements sm)[dst := m_supplements sm ! src]\<rparr>"

text \<open>
  The loop \<^verbatim>\<open>for(int i=id; i>total; i--)\<close>: each pass moves the system of slot
  \<^verbatim>\<open>i-1\<close> to slot \<^verbatim>\<open>i\<close> and writes \<^verbatim>\<open>i\<close> through its \<^verbatim>\<open>index\<close> pointer. Where
  that pointer is \<^verbatim>\<open>NULL\<close>, because no system was created in the slot, the write has
  no defined result and the loop yields \<open>None\<close>.
\<close>

fun shift_systems ::
  "nat \<Rightarrow> nat \<Rightarrow> (nat \<Rightarrow> 32 word) \<times> SystemManager \<Rightarrow> ((nat \<Rightarrow> 32 word) \<times> SystemManager) option" where
  "shift_systems 0 tot st = Some st"
| "shift_systems (Suc j) tot (ids, sm) =
     (if Suc j > tot then
        (let sm1 = moveTo j (Suc j) sm
         in case index_ref (m_supplements sm1 ! Suc j) of
              None \<Rightarrow> None
            | Some U \<Rightarrow> shift_systems j tot (ids(U := of_nat (Suc j)), sm1))
      else Some (ids, sm))"

text \<open>
  \<^verbatim>\<open>SystemManager::createSystem<T>(instance, priority, id)\<close>, where \<^verbatim>\<open>id\<close> is a
  reference to \<^verbatim>\<open>SystemType<T>::id\<close>: the arguments are the name of \<^verbatim>\<open>T\<close> and the
  table of the static ids, which is returned updated. The result is \<open>None\<close> where
  one of the two loops has none.
\<close>

definition SystemManager_createSystem ::
  "nat \<Rightarrow> byte list \<Rightarrow> real \<Rightarrow> (nat \<Rightarrow> 32 word) \<Rightarrow> SystemManager
     \<Rightarrow> ((nat \<Rightarrow> 32 word) \<times> SystemManager) option" where
  "SystemManager_createSystem T inst prio ids sm =
     (let sid = ids T;
          store = m_stores sm ! unat sid;
          supplement = m_supplements sm ! unat sid
      in case (if sid > 0
               then search_slot (map priority (m_supplements sm)) prio sid (sid div 2) (sid div 2)
               else Some (sid div 2)) of
           None \<Rightarrow> None
         | Some tot \<Rightarrow>
             (case shift_systems (unat sid) (unat tot) (ids, sm) of
                None \<Rightarrow> None
              | Some (ids1, sm1) \<Rightarrow>
                  (let sm2 = sm1\<lparr>m_supplements :=
                                   (m_supplements sm1)
                                     [unat tot := supplement\<lparr>priority := Some prio, index_ref := Some T\<rparr>]\<rparr>;
                       sm3 = sm2\<lparr>m_stores := (m_stores sm2)[unat tot := store]\<rparr>;
                       ids2 = ids1(T := tot)
                   in Some (ids2,
                            sm3\<lparr>m_stores :=
                                  (m_stores sm3)[unat tot := initialize inst (m_stores sm3 ! unat tot)]\<rparr>))))"

definition addRequirement :: "nat \<Rightarrow> nat \<Rightarrow> SystemManager \<Rightarrow> SystemManager" where
  "addRequirement componentId sid sm =
     (let req = requirement (m_supplements sm ! sid)
      in if componentId \<in> set req then sm
         else sm\<lparr>m_supplements :=
                   (m_supplements sm)[sid := (m_supplements sm ! sid)\<lparr>requirement := req @ [componentId]\<rparr>]\<rparr>)"

definition addRequirements :: "nat list \<Rightarrow> nat \<Rightarrow> SystemManager \<Rightarrow> SystemManager" where
  "addRequirements args sid sm = fold (\<lambda>componentId. addRequirement componentId sid) args sm"

section \<open>The engine\<close>

text \<open>
  The static members shared by every engine: \<^verbatim>\<open>ecs::error\<close>, the counters and buffers
  filled by \<^verbatim>\<open>ComponentManager::newId\<close> and \<^verbatim>\<open>SystemManager::newId\<close>, the id that
  \<^verbatim>\<open>ComponentType<bool>\<close> received, \<^verbatim>\<open>SystemManager::functionIndex\<close>, and the table
  of the \<^verbatim>\<open>SystemType<T>::id\<close>. \<^verbatim>\<open>struct ecs\<close> adds its three managers.
\<close>

record globals =
  error :: "16 word"
  ComponentManager_idCount :: nat
  spaceBuffer :: "nat list"
  complexBuffer :: "bool list"
  ComponentType_bool :: nat
  SystemManager_idCount :: nat
  functionIndex :: "8 word"
  SystemType_id :: "nat \<Rightarrow> 32 word"

record ecs = globals +
  m_entityManager :: EntityManager
  m_componentManager :: ComponentManager
  m_systemManager :: SystemManager

definition ecs_new :: "globals \<Rightarrow> ecs" where
  "ecs_new g =
     (let totalEntities = unat (totalEntityCount EntityManager_new)
      in \<lparr>error = error g,
          ComponentManager_idCount = ComponentManager_idCount g,
          spaceBuffer = spaceBuffer g,
          complexBuffer = complexBuffer g,
          ComponentType_bool = ComponentType_bool g,
          SystemManager_idCount = SystemManager_idCount g,
          functionIndex = functionIndex g,
          SystemType_id = SystemType_id g,
          m_entityManager = EntityManager_new,
          m_componentManager =
            ComponentManager_new (ComponentManager_idCount g) (spaceBuffer g) (complexBuffer g) totalEntities,
          m_systemManager = SystemManager_new (SystemManager_idCount g) (functionIndex g) totalEntities\<rparr>)"

text \<open>Storing the code that a component function reported in \<^verbatim>\<open>ecs::error\<close>.\<close>

definition record_error :: "16 word option \<Rightarrow> ecs \<Rightarrow> ecs" where
  "record_error err s = (case err of None \<Rightarrow> s | Some c \<Rightarrow> s\<lparr>error := c\<rparr>)"

definition getError :: "ecs \<Rightarrow> 16 word \<times> ecs" where
  "getError s = (error s, s\<lparr>error := 0\<rparr>)"

definition numberOfEntities :: "ecs \<Rightarrow> entity" where
  "numberOfEntities s = totalEntityCount (m_entityManager s)"

definition addComponentConfiguration :: "entity \<Rightarrow> nat \<Rightarrow> ecs \<Rightarrow> ecs" where
  "addComponentConfiguration e tid s =
     (let em = setComponentBit e tid True (m_entityManager s);
          bitmap = getBitmap e em;
          sm = fold (\<lambda>i sm'. if bitmapMatches_bit i bitmap tid sm' then insertEntity e i sm' else sm')
                 [0..<SystemManager_idCount s] (m_systemManager s)
      in s\<lparr>m_entityManager := em, m_systemManager := sm\<rparr>)"

text \<open>
  \<^verbatim>\<open>ecs::addComponent<T>(e, component)\<close>: the type \<^verbatim>\<open>T\<close> is given by its
  \<^verbatim>\<open>ComponentType<T>::id\<close>, and the value decides the overload. The returned component
  is left out; for an entity that \<^verbatim>\<open>contains\<close> rejects it is read with
  \<^verbatim>\<open>getComponent<T>(-1)\<close>, which for a type that is not trivially copyable indexes the
  index map outside its range.
\<close>

definition addComponent :: "nat \<Rightarrow> entity \<Rightarrow> cval \<Rightarrow> ecs \<Rightarrow> ecs" where
  "addComponent tid e component s =
     (if \<not> EntityManager_contains e (m_entityManager s) then s\<lparr>error := 6\<rparr>
      else
        let (err, cm) = ComponentManager_addComponent tid component e (m_componentManager s)
        in addComponentConfiguration e tid (record_error err (s\<lparr>m_componentManager := cm\<rparr>)))"

definition createEntity :: "ecs \<Rightarrow> entity \<times> ecs" where
  "createEntity s =
     (let n = unat (totalEntityCount (m_entityManager s));
          sm = SystemManager_addEntity (SystemManager_idCount s)
                 (SystemManager_update (SystemManager_idCount s) (functionIndex s) n (m_systemManager s));
          cm = ComponentManager_addEntity (ComponentManager_idCount s)
                 (ComponentManager_update (ComponentManager_idCount s) (spaceBuffer s) (complexBuffer s) n
                    (m_componentManager s));
          (e, em) = EntityManager_createEntity (ComponentManager_idCount s) (m_entityManager s)
      in (e, addComponent (ComponentType_bool s) e (TrivialV [bool_byte True])
               (s\<lparr>m_systemManager := sm, m_componentManager := cm, m_entityManager := em\<rparr>)))"

definition removeEntity :: "entity \<Rightarrow> ecs \<Rightarrow> ecs" where
  "removeEntity e s =
     (if \<not> EntityManager_contains e (m_entityManager s) then s\<lparr>error := 6\<rparr>
      else
        let cm = ComponentManager_removeEntity (ComponentManager_idCount s) e (m_componentManager s);
            sm = extractEntity (SystemManager_idCount s) e (getBitmap e (m_entityManager s)) (m_systemManager s);
            em = EntityManager_removeEntity (ComponentManager_idCount s) e (m_entityManager s)
        in s\<lparr>m_componentManager := cm, m_systemManager := sm, m_entityManager := em\<rparr>)"

text \<open>
  \<^verbatim>\<open>ecs::getComponent<T>(e)\<close>: the value read, and the engine with the error code
  the call may have stored.
\<close>

definition getComponent :: "ctype \<Rightarrow> nat \<Rightarrow> entity \<Rightarrow> ecs \<Rightarrow> cval \<times> ecs" where
  "getComponent T tid e s =
     (let (e1, s1) = (if \<not> EntityManager_contains e (m_entityManager s) then (- 1, s\<lparr>error := 6\<rparr>)
                      else (e, s));
          (err, result) = ComponentManager_getComponent T tid e1 (m_componentManager s1)
      in (result, record_error err s1))"

text \<open>\<^verbatim>\<open>ecs::active(e)\<close> is \<^verbatim>\<open>getComponent<bool>(e)\<close>.\<close>

definition active :: "entity \<Rightarrow> ecs \<Rightarrow> bool \<times> ecs" where
  "active e s =
     (let (v, s1) = getComponent (Trivial 1) (ComponentType_bool s) e s
      in (v \<noteq> TrivialV [0], s1))"

text \<open>
  \<^verbatim>\<open>ecs::setActive(e, newState)\<close>. The reference \<^verbatim>\<open>state\<close> returned by
  \<^verbatim>\<open>getComponent<bool>\<close> is the byte of the pool at the entity's index, or the default
  slot (position \<^verbatim>\<open>sizeof(bool)\<close>) when the index is \<^verbatim>\<open>-1\<close>.
\<close>

definition setActive :: "entity \<Rightarrow> bool \<Rightarrow> ecs \<Rightarrow> ecs" where
  "setActive e newState s =
     (if \<not> EntityManager_contains e (m_entityManager s) then s\<lparr>error := 6\<rparr>
      else
        let tid = ComponentType_bool s;
            cm = m_componentManager s;
            index = m_indexMaps cm ! tid ! unat e;
            array = m_componentArrays cm ! tid;
            s1 = (if index = - 1 then s\<lparr>error := 2\<rparr> else s);
            pos = (if index = - 1 then 1 else unat index);
            state = (m_components array ! pos \<noteq> 0)
        in if state = newState then s1
           else
             let array1 = array\<lparr>m_components := (m_components array)[pos := bool_byte newState]\<rparr>;
                 s2 = s1\<lparr>m_componentManager := cm\<lparr>m_componentArrays := (m_componentArrays cm)[tid := array1]\<rparr>\<rparr>;
                 bitmap = getBitmap e (m_entityManager s2)
             in if newState then
                  s2\<lparr>m_systemManager :=
                       fold (\<lambda>i sm'. if bitmapMatches i bitmap sm' then insertEntity e i sm' else sm')
                         [0..<SystemManager_idCount s2] (m_systemManager s2)\<rparr>
                else
                  s2\<lparr>m_systemManager :=
                       extractEntity (SystemManager_idCount s2) e bitmap (m_systemManager s2)\<rparr>)"

definition shareComponent :: "ctype \<Rightarrow> nat \<Rightarrow> entity \<Rightarrow> entity \<Rightarrow> ecs \<Rightarrow> ecs" where
  "shareComponent T tid e donor s =
     (if \<not> EntityManager_contains e (m_entityManager s) then s\<lparr>error := 6\<rparr>
      else
        let (err, cm) = share T tid e donor (m_componentManager s)
        in addComponentConfiguration e tid (record_error err (s\<lparr>m_componentManager := cm\<rparr>)))"

definition setComponent :: "nat \<Rightarrow> entity \<Rightarrow> cval \<Rightarrow> ecs \<Rightarrow> ecs" where
  "setComponent tid e update s =
     (let (e1, s1) = (if \<not> EntityManager_contains e (m_entityManager s) then (- 1, s\<lparr>error := 6\<rparr>)
                      else (e, s));
          (err, cm) = ComponentManager_setComponent tid update e1 (m_componentManager s1)
      in record_error err (s1\<lparr>m_componentManager := cm\<rparr>))"

definition containsComponent :: "nat \<Rightarrow> entity \<Rightarrow> ecs \<Rightarrow> bool" where
  "containsComponent tid e s = ComponentManager_containsComponent tid e (m_componentManager s)"

definition removeComponent :: "ctype \<Rightarrow> nat \<Rightarrow> entity \<Rightarrow> ecs \<Rightarrow> ecs" where
  "removeComponent T tid e s =
     (if \<not> EntityManager_contains e (m_entityManager s) then s\<lparr>error := 6\<rparr>
      else
        let sm = componentRemoved (SystemManager_idCount s) e tid (getBitmap e (m_entityManager s))
                   (m_systemManager s);
            em = setComponentBit e tid False (m_entityManager s);
            (err, cm) = ComponentManager_removeComponent T tid e (m_componentManager s)
        in record_error err (s\<lparr>m_systemManager := sm, m_entityManager := em, m_componentManager := cm\<rparr>))"

definition createSystemFunction :: "ecs \<Rightarrow> 8 word \<times> ecs" where
  "createSystemFunction s =
     (functionIndex s,
      s\<lparr>m_systemManager := SystemManager_createSystemFunction (m_systemManager s),
        functionIndex := functionIndex s + 1\<rparr>)"

text \<open>
  \<^verbatim>\<open>ecs::entities<T>()\<close> and \<^verbatim>\<open>ecs::getMapping<T>()\<close> for the system type named
  \<^verbatim>\<open>T\<close>.
\<close>

definition ecs_entities :: "nat \<Rightarrow> ecs \<Rightarrow> entity list" where
  "ecs_entities T s = entities (m_supplements (m_systemManager s) ! unat (SystemType_id s T))"

definition getMapping :: "nat \<Rightarrow> ecs \<Rightarrow> size_t list" where
  "getMapping T s = indexMap (m_supplements (m_systemManager s) ! unat (SystemType_id s T))"

text \<open>
  \<^verbatim>\<open>ecs::createSystem<T, Args...>(instance, priority)\<close>; \<^verbatim>\<open>args\<close> are the
  \<^verbatim>\<open>ComponentType\<close> ids of \<^verbatim>\<open>Args\<close>. The result is \<open>None\<close> where
  \<^verbatim>\<open>SystemManager::createSystem\<close> has none.
\<close>

definition createSystem :: "nat \<Rightarrow> nat list \<Rightarrow> byte list \<Rightarrow> real \<Rightarrow> ecs \<Rightarrow> ecs option" where
  "createSystem T args inst prio s =
     (let n = unat (totalEntityCount (m_entityManager s));
          sm1 = SystemManager_update (SystemManager_idCount s) (functionIndex s) n (m_systemManager s)
      in case SystemManager_createSystem T inst prio (SystemType_id s) sm1 of
           None \<Rightarrow> None
         | Some (ids, sm2) \<Rightarrow>
             (let sid = unat (ids T);
                  sm3 = addRequirements args sid sm2;
                  sm4 = fold (\<lambda>i sm'. if entityActive (of_nat i) (m_entityManager s)
                                        then (if bitmapMatches sid (getBitmap (of_nat i) (m_entityManager s)) sm'
                                              then insertEntity (of_nat i) sid sm' else sm')
                                        else sm')
                          [0..<n] sm3
              in Some (s\<lparr>SystemType_id := ids, m_systemManager := sm4\<rparr>)))"

text \<open>\<^verbatim>\<open>ecs::run(index)\<close>: the engine and the calls made.\<close>

definition run :: "8 word \<Rightarrow> ecs \<Rightarrow> ecs \<times> (nat \<times> nat) list" where
  "run index s =
     (if \<not> containsFunction (ucast index) (functionIndex s) then (s\<lparr>error := 5\<rparr>, [])
      else (s, runFunction index (m_systemManager s)))"

text \<open>
  Every index map reaches the id that the next fresh entity will get, and holds the
  sentinel from that position on.
\<close>

definition unissued_absent :: "ecs \<Rightarrow> bool" where
  "unissued_absent s =
     list_all (\<lambda>m. unat (m_entityCount (m_entityManager s)) \<le> length m
                   \<and> list_all (\<lambda>x. x = - 1) (drop (unat (m_entityCount (m_entityManager s))) m))
       (m_indexMaps (m_componentManager s))"

text \<open>
  Observations used to state the order of systems. The first \<^verbatim>\<open>n\<close> slots of the
  system array: for each slot the type whose static id points to it, the priority, and
  the stored system. The priorities alone. The calls that \<^verbatim>\<open>run\<close> makes, in their
  order: for each the type and the priority of the system called, and the callback.
\<close>

definition system_slots :: "nat \<Rightarrow> ecs \<Rightarrow> (nat option \<times> real option \<times> system) list" where
  "system_slots n s =
     map (\<lambda>(supp, store). (index_ref supp, priority supp, store))
       (zip (take n (m_supplements (m_systemManager s))) (take n (m_stores (m_systemManager s))))"

definition system_priorities :: "nat \<Rightarrow> ecs \<Rightarrow> real option list" where
  "system_priorities n s = map priority (take n (m_supplements (m_systemManager s)))"

definition run_calls :: "8 word \<Rightarrow> ecs \<Rightarrow> (nat option \<times> real option \<times> nat) list" where
  "run_calls index s =
     map (\<lambda>(i, f). (index_ref (m_supplements (m_systemManager s) ! i),
                     priority (m_supplements (m_systemManager s) ! i), f))
       (snd (run index s))"

definition run_priorities :: "8 word \<Rightarrow> ecs \<Rightarrow> real option list" where
  "run_priorities index s = map (\<lambda>(T, p, f). p) (run_calls index s)"

text \<open>
  The first \<^verbatim>\<open>n\<close> slots of the system array hold created systems, each with its
  priority and the pointer to its static id set, and no later slot holds one; the two
  vectors of the system manager have one length, which covers every system type.
\<close>

definition systems_created :: "nat \<Rightarrow> ecs \<Rightarrow> bool" where
  "systems_created n s =
     (length (m_stores (m_systemManager s)) = length (m_supplements (m_systemManager s))
      \<and> SystemManager_idCount s \<le> length (m_supplements (m_systemManager s))
      \<and> n \<le> length (m_supplements (m_systemManager s))
      \<and> list_all (\<lambda>supp. priority supp \<noteq> None \<and> index_ref supp \<noteq> None)
           (take n (m_supplements (m_systemManager s)))
      \<and> list_all initialized (take n (m_stores (m_systemManager s)))
      \<and> list_all (\<lambda>store. \<not> initialized store) (drop n (m_stores (m_systemManager s))))"

text \<open>
  Notions used to state what the pools hold. A value has the shape of its type. The
  strings and vectors of a value have fewer than \<^verbatim>\<open>2^31\<close> elements, the range of the
  \<^verbatim>\<open>int\<close> counters of the reading loops. The bytes of the record that
  \<^verbatim>\<open>object::serialize\<close> writes for a value when it is passed \<^verbatim>\<open>length\<close>: the object
  representation for a trivially copyable value; otherwise the eight bytes of
  \<^verbatim>\<open>length\<close>, the eight bytes of the element count, and the elements, each a record
  with its own \<^verbatim>\<open>object::length\<close>.
\<close>

fun has_type :: "ctype \<Rightarrow> cval \<Rightarrow> bool" where
  "has_type (Trivial n) (TrivialV bs) = (length bs = n)"
| "has_type String (StringV d) = True"
| "has_type (Vector T) (VectorV d) = list_all (has_type T) d"
| "has_type T v = False"

fun lengths_fit :: "cval \<Rightarrow> bool" where
  "lengths_fit (TrivialV bs) = True"
| "lengths_fit (StringV d) = (length d < 2147483648)"
| "lengths_fit (VectorV d) = (length d < 2147483648 \<and> list_all lengths_fit d)"

fun record_bytes :: "nat \<Rightarrow> cval \<Rightarrow> byte list" where
  "record_bytes len (TrivialV bs) = take len bs"
| "record_bytes len (StringV d) =
     bytes_of_size (of_nat len) @ bytes_of_size (of_nat (length d)) @ map byte_of_char d"
| "record_bytes len (VectorV d) =
     bytes_of_size (of_nat len) @ bytes_of_size (of_nat (length d))
       @ concat (map (\<lambda>x. record_bytes (object_length x) x) d)"

section \<open>Concrete engines\<close>

text \<open>
  Registries as the static initialisers leave them, and short runs of the public
  operations on engines built from them. Component type 0 is \<^verbatim>\<open>bool\<close> throughout.
\<close>

text \<open>Only \<^verbatim>\<open>bool\<close> is registered, and no system type.\<close>

definition registry_bool :: globals where
  "registry_bool =
     \<lparr>error = 0, ComponentManager_idCount = 1, spaceBuffer = [1], complexBuffer = [True],
      ComponentType_bool = 0, SystemManager_idCount = 0, functionIndex = 0,
      SystemType_id = (\<lambda>T. 0)\<rparr>"

text \<open>One entity is created and removed again.\<close>

definition engine_removed :: ecs where
  "engine_removed = removeEntity 0 (snd (createEntity (ecs_new registry_bool)))"

text \<open>The removed id is handed out again by the next \<^verbatim>\<open>createEntity\<close>.\<close>

definition engine_reused :: ecs where
  "engine_reused = snd (createEntity engine_removed)"

text \<open>
  \<^verbatim>\<open>bool\<close> and \<^verbatim>\<open>float\<close> (component type 1, four bytes) are registered, and one
  system type, named 0, which requires \<^verbatim>\<open>float\<close>. The system is created first, then
  entity 0. (Every \<^verbatim>\<open>createSystem\<close> of this section returns an engine; the lemmas
  at its end say so.)
\<close>

definition registry_float :: globals where
  "registry_float =
     \<lparr>error = 0, ComponentManager_idCount = 2, spaceBuffer = [1, 4], complexBuffer = [True, True],
      ComponentType_bool = 0, SystemManager_idCount = 1, functionIndex = 0,
      SystemType_id = (\<lambda>T. 0)\<rparr>"

definition engine_float :: ecs where
  "engine_float = snd (createEntity (the (createSystem 0 [1] [102, 0, 0, 0] 0 (ecs_new registry_float))))"

text \<open>Entity 0 receives a \<^verbatim>\<open>float\<close>, and then a second one.\<close>

definition engine_float_added :: ecs where
  "engine_float_added = addComponent 1 0 (TrivialV [1, 0, 0, 0]) engine_float"

definition engine_float_added_twice :: ecs where
  "engine_float_added_twice = addComponent 1 0 (TrivialV [2, 0, 0, 0]) engine_float_added"

text \<open>Entity 0 is deactivated and then receives a \<^verbatim>\<open>float\<close>.\<close>

definition engine_inactive_added :: ecs where
  "engine_inactive_added = addComponent 1 0 (TrivialV [1, 0, 0, 0]) (setActive 0 False engine_float)"

text \<open>
  \<^verbatim>\<open>bool\<close> and \<^verbatim>\<open>std::string\<close> (component type 1, \<^verbatim>\<open>sizeof\<close> 32) are registered.
  Entities 0 and 1 are created, entity 0 receives the string \<^verbatim>\<open>"a"\<close>, which is then set
  to \<^verbatim>\<open>"abc"\<close>.
\<close>

definition registry_string :: globals where
  "registry_string =
     \<lparr>error = 0, ComponentManager_idCount = 2, spaceBuffer = [1, 32], complexBuffer = [True, False],
      ComponentType_bool = 0, SystemManager_idCount = 0, functionIndex = 0,
      SystemType_id = (\<lambda>T. 0)\<rparr>"

definition engine_string :: ecs where
  "engine_string =
     addComponent 1 0 (StringV ''a'') (snd (createEntity (snd (createEntity (ecs_new registry_string)))))"

definition engine_string_set :: ecs where
  "engine_string_set = setComponent 1 0 (StringV ''abc'') engine_string"

text \<open>
  Two system types, named 0 and 1 with static ids 0 and 1, both requiring \<^verbatim>\<open>bool\<close>.
  After one function kind is declared, system 0 is created with priority \<^verbatim>\<open>-100\<close> and
  system 1 with priority 0, as \<^verbatim>\<open>main.cpp\<close> does with its two systems.
\<close>

definition registry_two_systems :: globals where
  "registry_two_systems =
     \<lparr>error = 0, ComponentManager_idCount = 1, spaceBuffer = [1], complexBuffer = [True],
      ComponentType_bool = 0, SystemManager_idCount = 2, functionIndex = 0,
      SystemType_id = (\<lambda>T. of_nat T)\<rparr>"

definition engine_one_system :: ecs where
  "engine_one_system =
     the (createSystem 0 [0] [4, 0, 0, 0] (- 100) (snd (createSystemFunction (ecs_new registry_two_systems))))"

definition engine_two_systems :: ecs where
  "engine_two_systems = the (createSystem 1 [0] [0, 0, 0, 0, 0, 0, 0, 0] 0 engine_one_system)"

text \<open>
  Three system types with static ids 0, 1 and 2, created in that order with the
  priorities 1, 3 and 2.
\<close>

definition registry_three_systems :: globals where
  "registry_three_systems =
     \<lparr>error = 0, ComponentManager_idCount = 1, spaceBuffer = [1], complexBuffer = [True],
      ComponentType_bool = 0, SystemManager_idCount = 3, functionIndex = 0,
      SystemType_id = (\<lambda>T. of_nat T)\<rparr>"

definition engine_three_systems :: ecs where
  "engine_three_systems =
     the (createSystem 2 [0] [0] 2
       (the (createSystem 1 [0] [0] 3
          (the (createSystem 0 [0] [0] 1 (ecs_new registry_three_systems))))))"

text \<open>
  With the registry of \<^verbatim>\<open>bool\<close> and \<^verbatim>\<open>float\<close>: entities 0 and 1 are created and
  each receives a \<^verbatim>\<open>float\<close>.
\<close>

definition engine_two_floats :: ecs where
  "engine_two_floats =
     addComponent 1 1 (TrivialV [2, 0, 0, 0])
       (addComponent 1 0 (TrivialV [1, 0, 0, 0])
          (snd (createEntity (snd (createEntity (ecs_new registry_float))))))"


text \<open>The calls of \<^verbatim>\<open>createSystem\<close> made above return an engine.\<close>

lemma engine_float_system_created:
  "createSystem 0 [1] [102, 0, 0, 0] 0 (ecs_new registry_float) \<noteq> None"
proof -
  have "\<not> Option.is_none (createSystem 0 [1] [102, 0, 0, 0] 0 (ecs_new registry_float))"
    by code_simp
  then show ?thesis
    by (simp add: Option.is_none_def)
qed

lemma engine_one_system_created:
  "createSystem 0 [0] [4, 0, 0, 0] (- 100) (snd (createSystemFunction (ecs_new registry_two_systems)))
     = Some engine_one_system"
proof -
  have "\<not> Option.is_none
          (createSystem 0 [0] [4, 0, 0, 0] (- 100) (snd (createSystemFunction (ecs_new registry_two_systems))))"
    by code_simp
  then show ?thesis
    by (simp add: Option.is_none_def engine_one_system_def)
qed

lemma engine_two_systems_created:
  "createSystem 1 [0] [0, 0, 0, 0, 0, 0, 0, 0] 0 engine_one_system = Some engine_two_systems"
proof -
  have "\<not> Option.is_none (createSystem 1 [0] [0, 0, 0, 0, 0, 0, 0, 0] 0 engine_one_system)"
    by code_simp
  then show ?thesis
    by (simp add: Option.is_none_def engine_two_systems_def)
qed

lemma engine_three_systems_created:
  "createSystem 0 [0] [0] 1 (ecs_new registry_three_systems) \<noteq> None
   \<and> createSystem 1 [0] [0] 3 (the (createSystem 0 [0] [0] 1 (ecs_new registry_three_systems))) \<noteq> None
   \<and> createSystem 2 [0] [0] 2
        (the (createSystem 1 [0] [0] 3 (the (createSystem 0 [0] [0] 1 (ecs_new registry_three_systems)))))
       = Some engine_three_systems"
proof -
  have "\<not> Option.is_none (createSystem 0 [0] [0] 1 (ecs_new registry_three_systems))"
    and "\<not> Option.is_none
           (createSystem 1 [0] [0] 3 (the (createSystem 0 [0] [0] 1 (ecs_new registry_three_systems))))"
    and "\<not> Option.is_none
           (createSystem 2 [0] [0] 2
              (the (createSystem 1 [0] [0] 3 (the (createSystem 0 [0] [0] 1 (ecs_new registry_three_systems))))))"
    by code_simp+
  then show ?thesis
    by (simp add: Option.is_none_def engine_three_systems_def)
qed

section \<open>Facts about the operations\<close>

lemma addEntity_maps:
  "n \<le> length maps \<Longrightarrow>
   length (fold (\<lambda>i maps. maps[i := maps ! i @ [- 1 :: size_t]]) [0..<n] maps) = length maps
   \<and> (\<forall>t < length maps. fold (\<lambda>i maps. maps[i := maps ! i @ [- 1]]) [0..<n] maps ! t =
          (if t < n then maps ! t @ [- 1] else maps ! t))"
proof (induction n)
  case 0
  then show ?case by simp
next
  case (Suc n)
  then show ?case by (simp add: nth_list_update)
qed

lemma ComponentManager_addEntity_map:
  "idCount = length (m_indexMaps cm) \<Longrightarrow> t < idCount \<Longrightarrow>
   m_indexMaps (ComponentManager_addEntity idCount cm) ! t = m_indexMaps cm ! t @ [- 1]"
  using addEntity_maps [of idCount "m_indexMaps cm"]
  by (simp add: ComponentManager_addEntity_def)

lemma ComponentManager_addEntity_length:
  "idCount = length (m_indexMaps cm) \<Longrightarrow>
   length (m_indexMaps (ComponentManager_addEntity idCount cm)) = idCount"
  using addEntity_maps [of idCount "m_indexMaps cm"]
  by (simp add: ComponentManager_addEntity_def)

lemma ComponentManager_addEntity_arrays:
  "m_componentArrays (ComponentManager_addEntity idCount cm) = m_componentArrays cm"
  by (simp add: ComponentManager_addEntity_def)

lemma ComponentManager_update_same:
  "length (m_indexMaps cm) = idCount \<Longrightarrow>
   ComponentManager_update idCount space cplx n cm = cm"
  by (simp add: ComponentManager_update_def)

lemma addComponentConfiguration_cm:
  "m_componentManager (addComponentConfiguration e tid s) = m_componentManager s"
  by (simp add: addComponentConfiguration_def Let_def)

lemma record_error_cm:
  "m_componentManager (record_error err s) = m_componentManager s"
  by (simp add: record_error_def split: option.splits)

lemma addComponent_cm:
  "EntityManager_contains e (m_entityManager s) \<Longrightarrow>
   m_componentManager (addComponent tid e v s) =
     snd (ComponentManager_addComponent tid v e (m_componentManager s))"
  by (simp add: addComponent_def addComponentConfiguration_cm record_error_cm split: prod.splits)

lemma addComponent_contains:
  "EntityManager_contains e' (m_entityManager (addComponent tid e v s))
     = EntityManager_contains e' (m_entityManager s)"
  by (simp add: addComponent_def addComponentConfiguration_def record_error_def Let_def
      EntityManager_contains_def totalEntityCount_def setComponentBit_def
      split: prod.splits option.splits)

text \<open>Adding to an entity whose entry is the sentinel appends: the entry becomes the old pool size.\<close>

lemma ComponentManager_addComponent_absent:
  assumes "m_indexMaps cm ! tid ! unat e = - 1"
  shows "m_indexMaps (snd (ComponentManager_addComponent tid v e cm)) =
           (m_indexMaps cm)[tid := (m_indexMaps cm ! tid)
              [unat e := of_nat (length (m_components (m_componentArrays cm ! tid)))]]"
  using assms
  by (simp add: ComponentManager_addComponent_def ComponentArray_addComponent_def Let_def)

lemma pool_size_not_sentinel:
  "n < 2 ^ 64 - 1 \<Longrightarrow> (of_nat n :: size_t) \<noteq> - 1"
proof
  assume n: "n < 2 ^ 64 - 1" and eq: "(of_nat n :: size_t) = - 1"
  have "unat (of_nat n :: size_t) = n"
    using n by (simp add: unat_of_nat)
  moreover have "unat (- 1 :: size_t) = 2 ^ 64 - 1"
    by (simp add: unsigned_minus_1_eq_mask mask_eq_exp_minus_1)
  ultimately show False
    using n eq by simp
qed

section \<open>Facts about the encoding\<close>

lemma length_le_bytes: "length (le_bytes k x) = k"
  by (induction k arbitrary: x) simp_all

lemma length_bytes_of_size: "length (bytes_of_size w) = 8"
  by (simp add: bytes_of_size_def length_le_bytes)

lemma le_nat_le_bytes: "x < 256 ^ k \<Longrightarrow> le_nat (le_bytes k x) = x"
proof (induction k arbitrary: x)
  case 0
  then show ?case by simp
next
  case (Suc k)
  have "x div 256 < 256 ^ k"
    using Suc.prems by (simp add: less_mult_imp_div_less mult.commute)
  then have "le_nat (le_bytes k (x div 256)) = x div 256"
    by (rule Suc.IH)
  moreover have "unat (of_nat (x mod 256) :: byte) = x mod 256"
    by (simp add: unat_of_nat)
  ultimately show ?case
    by simp
qed

lemma size_of_bytes_of_size: "size_of_bytes (bytes_of_size w) = w"
proof -
  have "unat w < 2 ^ LENGTH(64)"
    by (rule unsigned_less)
  then have "unat w < 256 ^ 8"
    by simp
  then have "le_nat (le_bytes 8 (unat w)) = unat w"
    by (rule le_nat_le_bytes)
  then show ?thesis
    by (simp only: size_of_bytes_def bytes_of_size_def) simp
qed

lemma char_of_byte_of_char: "char_of_byte (byte_of_char c) = c"
proof -
  have "(of_char c :: nat) < 256"
    by (rule nat_of_char_less_256)
  then have "unat (of_nat (of_char c) :: byte) = of_char c"
    by (simp add: unat_of_nat)
  then show ?thesis
    by (simp add: char_of_byte_def byte_of_char_def)
qed

lemma length_record_bytes:
  "(trivial_value v \<longrightarrow> len = object_length v) \<Longrightarrow> length (record_bytes len v) = object_length v"
proof (induction v arbitrary: len)
  case (TrivialV bs)
  then show ?case by simp
next
  case (StringV d)
  then show ?case by (simp add: length_bytes_of_size)
next
  case (VectorV d)
  have "\<And>x. x \<in> set d \<Longrightarrow> length (record_bytes (object_length x) x) = object_length x"
    using VectorV.IH by simp
  then have "map (\<lambda>x. length (record_bytes (object_length x) x)) d = map object_length d"
    by simp
  then have "sum_list (map (\<lambda>x. length (record_bytes (object_length x) x)) d) = sum_list (map object_length d)"
    by (rule arg_cong)
  then show ?case
    by (simp add: length_bytes_of_size length_concat comp_def del: map_eq_conv)
qed

lemma length_memcpy: "length (memcpy stream index src) = length stream"
  by (simp add: memcpy_def)

lemma memcpy_twice:
  assumes "index + length a + length b \<le> length stream"
  shows "memcpy (memcpy stream index a) (index + length a) b = memcpy stream index (a @ b)"
proof -
  have in1: "index + length a \<le> length stream"
    using assms by simp
  have s1: "memcpy stream index a = take index stream @ a @ drop (index + length a) stream"
    using in1 by (simp add: memcpy_def)
  have l1: "length (take index stream @ a) = index + length a"
    using in1 by simp
  have "take (index + length a) (memcpy stream index a) = take index stream @ a"
    using l1 by (simp only: s1 append_assoc [symmetric]) simp
  moreover have "drop (index + length a + length b) (memcpy stream index a)
                   = drop (index + length (a @ b)) stream"
  proof -
    have "drop (index + length a + length b) ((take index stream @ a) @ drop (index + length a) stream)
            = drop (length b) (drop (index + length a) stream)"
      using l1 by simp
    then show ?thesis
      by (simp only: s1 append_assoc) (simp add: add.commute add.left_commute)
  qed
  ultimately show ?thesis
    using assms by (simp add: memcpy_def [of "memcpy stream index a"] memcpy_def [of stream index "a @ b"] length_memcpy)
qed

lemma memcpy_then:
  "pos = index + length a \<Longrightarrow> index + length a + length b \<le> length stream \<Longrightarrow>
   memcpy (memcpy stream index a) pos b = memcpy stream index (a @ b)"
  by (simp only: memcpy_twice)

lemma memcpy_empty: "memcpy stream index [] = stream"
  by (simp add: memcpy_def)

lemma serialize_chars_memcpy:
  "pos + length d \<le> length stream \<Longrightarrow>
   serialize_chars d stream pos = memcpy stream pos (map byte_of_char d)"
proof (induction d arbitrary: stream pos)
  case Nil
  then show ?case by (simp add: memcpy_empty)
next
  case (Cons v vs)
  have "serialize_chars vs (memcpy stream pos [byte_of_char v]) (pos + 1)
          = memcpy (memcpy stream pos [byte_of_char v]) (pos + 1) (map byte_of_char vs)"
    using Cons.prems by (intro Cons.IH) (simp add: length_memcpy)
  also have "\<dots> = memcpy stream pos ([byte_of_char v] @ map byte_of_char vs)"
    using Cons.prems memcpy_twice [of pos "[byte_of_char v]" "map byte_of_char vs" stream] by simp
  finally show ?case
    by simp
qed

lemma serialize_elements_memcpy:
  assumes each: "\<And>x stream pos. x \<in> set d \<Longrightarrow> pos + object_length x \<le> length stream \<Longrightarrow>
           object_serialize x stream pos (object_length x) = memcpy stream pos (record_bytes (object_length x) x)"
    and "pos + sum_list (map object_length d) \<le> length stream"
  shows "serialize_elements d stream pos =
           memcpy stream pos (concat (map (\<lambda>x. record_bytes (object_length x) x) d))"
  using assms
proof (induction d arbitrary: stream pos)
  case Nil
  then show ?case by (simp add: memcpy_empty)
next
  case (Cons x xs)
  define a where "a = record_bytes (object_length x) x"
  define b where "b = concat (map (\<lambda>x. record_bytes (object_length x) x) xs)"
  have la: "length a = object_length x"
    by (simp add: a_def length_record_bytes)
  have lb: "length b = sum_list (map object_length xs)"
  proof -
    have "map (\<lambda>x. length (record_bytes (object_length x) x)) xs = map object_length xs"
      by (simp add: length_record_bytes)
    then have "sum_list (map (\<lambda>x. length (record_bytes (object_length x) x)) xs) = sum_list (map object_length xs)"
      by (rule arg_cong)
    then show ?thesis
      by (simp add: b_def length_concat comp_def del: map_eq_conv)
  qed
  have first: "object_serialize x stream pos (object_length x) = memcpy stream pos a"
    using Cons.prems(2) by (simp add: a_def Cons.prems(1))
  have "serialize_elements xs (memcpy stream pos a) (pos + object_length x)
          = memcpy (memcpy stream pos a) (pos + object_length x) b"
    unfolding b_def
    using Cons.prems by (intro Cons.IH) (simp_all add: length_memcpy)
  also have "\<dots> = memcpy stream pos (a @ b)"
    using Cons.prems(2) by (intro memcpy_then) (simp_all add: la lb)
  finally show ?case
    by (simp add: first a_def b_def)
qed

lemma object_serialize_memcpy:
  "index + object_length v \<le> length stream \<Longrightarrow>
   (trivial_value v \<longrightarrow> len = object_length v) \<Longrightarrow>
   object_serialize v stream index len = memcpy stream index (record_bytes len v)"
proof (induction v arbitrary: stream index len)
  case (TrivialV bs)
  then show ?case by simp
next
  case (StringV d)
  define p where "p = bytes_of_size (of_nat len :: size_t)"
  define q where "q = bytes_of_size (of_nat (length d) :: size_t)"
  have lp: "length p = 8" and lq: "length q = 8"
    by (simp_all add: p_def q_def length_bytes_of_size)
  have "object_serialize (StringV d) stream index len =
          serialize_chars d (memcpy (memcpy stream index p) (index + 8) q) (index + 8 + 8)"
    by (simp add: p_def q_def)
  also have "\<dots> = memcpy (memcpy (memcpy stream index p) (index + 8) q) (index + 8 + 8) (map byte_of_char d)"
    using StringV.prems by (intro serialize_chars_memcpy) (simp add: length_memcpy)
  also have "memcpy (memcpy stream index p) (index + 8) q = memcpy stream index (p @ q)"
    using StringV.prems by (intro memcpy_then) (simp_all add: lp lq)
  also have "memcpy (memcpy stream index (p @ q)) (index + 8 + 8) (map byte_of_char d)
               = memcpy stream index ((p @ q) @ map byte_of_char d)"
    using StringV.prems by (intro memcpy_then) (simp_all add: lp lq)
  finally show ?case
    by (simp add: p_def q_def)
next
  case (VectorV d)
  define p where "p = bytes_of_size (of_nat len :: size_t)"
  define q where "q = bytes_of_size (of_nat (length d) :: size_t)"
  define c where "c = concat (map (\<lambda>x. record_bytes (object_length x) x) d)"
  have lp: "length p = 8" and lq: "length q = 8"
    by (simp_all add: p_def q_def length_bytes_of_size)
  have lc: "length c = sum_list (map object_length d)"
  proof -
    have "map (\<lambda>x. length (record_bytes (object_length x) x)) d = map object_length d"
      by (simp add: length_record_bytes)
    then have "sum_list (map (\<lambda>x. length (record_bytes (object_length x) x)) d) = sum_list (map object_length d)"
      by (rule arg_cong)
    then show ?thesis
      by (simp add: c_def length_concat comp_def del: map_eq_conv)
  qed
  have each: "\<And>x stream pos. x \<in> set d \<Longrightarrow> pos + object_length x \<le> length stream \<Longrightarrow>
           object_serialize x stream pos (object_length x) = memcpy stream pos (record_bytes (object_length x) x)"
    using VectorV.IH by simp
  have "object_serialize (VectorV d) stream index len =
          serialize_elements d (memcpy (memcpy stream index p) (index + 8) q) (index + 8 + 8)"
    by (simp add: p_def q_def)
  also have "\<dots> = memcpy (memcpy (memcpy stream index p) (index + 8) q) (index + 8 + 8) c"
    unfolding c_def
    using VectorV.prems by (intro serialize_elements_memcpy each) (simp_all add: length_memcpy)
  also have "memcpy (memcpy stream index p) (index + 8) q = memcpy stream index (p @ q)"
    using VectorV.prems by (intro memcpy_then) (simp_all add: lp lq)
  also have "memcpy (memcpy stream index (p @ q)) (index + 8 + 8) c = memcpy stream index ((p @ q) @ c)"
    using VectorV.prems by (intro memcpy_then) (simp_all add: lp lq lc)
  finally show ?case
    by (simp add: p_def q_def c_def)
qed

lemma slice_append:
  assumes "take (length a + length b) (drop i s) = a @ b"
  shows "take (length a) (drop i s) = a" and "take (length b) (drop (i + length a) s) = b"
proof -
  have "take (length a) (take (length a + length b) (drop i s)) = take (length a) (a @ b)"
    by (simp only: assms)
  then show "take (length a) (drop i s) = a"
    by simp
  have "drop (length a) (take (length a + length b) (drop i s)) = drop (length a) (a @ b)"
    by (simp only: assms)
  then show "take (length b) (drop (i + length a) s) = b"
    by (simp add: drop_take add.commute)
qed

lemma chars_read:
  "take (length d) (drop pos stream) = map byte_of_char d \<Longrightarrow>
   deserialize_chars stream pos (length d) = d"
proof (induction d arbitrary: pos)
  case Nil
  then show ?case by simp
next
  case (Cons c cs)
  have whole: "take (length [byte_of_char c] + length (map byte_of_char cs)) (drop pos stream)
                 = [byte_of_char c] @ map byte_of_char cs"
    using Cons.prems by simp
  have one: "take 1 (drop pos stream) = [byte_of_char c]"
    using slice_append(1) [OF whole] by simp
  then have "drop pos stream \<noteq> []"
    by auto
  then have "hd (drop pos stream) = byte_of_char c"
    using one by (cases "drop pos stream") simp_all
  moreover have "pos < length stream"
    using \<open>drop pos stream \<noteq> []\<close> by simp
  ultimately have here: "stream ! pos = byte_of_char c"
    by (simp add: hd_drop_conv_nth)
  have "take (length cs) (drop (pos + 1) stream) = map byte_of_char cs"
    using slice_append(2) [OF whole] by simp
  then have "deserialize_chars stream (pos + 1) (length cs) = cs"
    by (rule Cons.IH)
  then show ?case
    using here by (simp add: char_of_byte_of_char)
qed

lemma elements_read:
  assumes each: "\<And>x stream pos. x \<in> set d \<Longrightarrow>
             take (object_length x) (drop pos stream) = record_bytes (object_length x) x \<Longrightarrow>
             object_deserialize T stream pos = x"
    and "take (sum_list (map object_length d)) (drop pos stream)
           = concat (map (\<lambda>x. record_bytes (object_length x) x) d)"
  shows "deserialize_elements T stream pos (length d) = d"
  using assms
proof (induction d arbitrary: pos)
  case Nil
  then show ?case by simp
next
  case (Cons x xs)
  define a where "a = record_bytes (object_length x) x"
  define b where "b = concat (map (\<lambda>x. record_bytes (object_length x) x) xs)"
  have la: "length a = object_length x"
    by (simp add: a_def length_record_bytes)
  have lb: "length b = sum_list (map object_length xs)"
  proof -
    have "map (\<lambda>x. length (record_bytes (object_length x) x)) xs = map object_length xs"
      by (simp add: length_record_bytes)
    then have "sum_list (map (\<lambda>x. length (record_bytes (object_length x) x)) xs) = sum_list (map object_length xs)"
      by (rule arg_cong)
    then show ?thesis
      by (simp add: b_def length_concat comp_def del: map_eq_conv)
  qed
  have n_eq: "length a + length b = sum_list (map object_length (x # xs))"
    by (simp add: la lb)
  have whole: "take (length a + length b) (drop pos stream) = a @ b"
    unfolding n_eq using Cons.prems(2) by (simp add: a_def b_def)
  have "take (object_length x) (drop pos stream) = a"
    using slice_append(1) [OF whole] by (simp only: la)
  then have "take (object_length x) (drop pos stream) = record_bytes (object_length x) x"
    by (simp only: a_def)
  then have first: "object_deserialize T stream pos = x"
    by (intro Cons.prems(1)) simp_all
  have "take (sum_list (map object_length xs)) (drop (pos + object_length x) stream) = b"
    using slice_append(2) [OF whole] by (simp only: la lb)
  then have "deserialize_elements T stream (pos + object_length x) (length xs) = xs"
    unfolding b_def using Cons.prems(1) by (intro Cons.IH) simp_all
  then show ?case
    by (simp add: first)
qed

lemma size_field_read:
  assumes "take 8 (drop pos stream) = bytes_of_size (of_nat n)" and "n < 2147483648"
  shows "unat (deserialize_size stream pos) = n"
proof -
  have "deserialize_size stream pos = (of_nat n :: size_t)"
    by (simp add: deserialize_size_def assms(1) size_of_bytes_of_size)
  moreover have "unat (of_nat n :: size_t) = n"
    using assms(2) by (simp add: unat_of_nat)
  ultimately show ?thesis
    by simp
qed

lemma object_deserialize_reads:
  "has_type T v \<Longrightarrow> lengths_fit v \<Longrightarrow> (trivial_value v \<longrightarrow> len = object_length v) \<Longrightarrow>
   take (object_length v) (drop index stream) = record_bytes len v \<Longrightarrow>
   object_deserialize T stream index = v"
proof (induction v arbitrary: T stream index len)
  case (TrivialV bs)
  then obtain n where T: "T = Trivial n" and n: "length bs = n"
    by (cases T) simp_all
  show ?case
    using TrivialV.prems(3,4) n by (simp add: T)
next
  case (StringV d)
  then have T: "T = String"
    by (cases T) simp_all
  define p where "p = bytes_of_size (of_nat len :: size_t)"
  define q where "q = bytes_of_size (of_nat (length d) :: size_t)"
  define c where "c = map byte_of_char d"
  have lp: "length p = 8" and lq: "length q = 8" and lc: "length c = length d"
    by (simp_all add: p_def q_def c_def length_bytes_of_size)
  have n_eq: "length p + length (q @ c) = object_length (StringV d)"
    by (simp add: lp lq lc)
  have whole: "take (length p + length (q @ c)) (drop index stream) = p @ (q @ c)"
    unfolding n_eq using StringV.prems(4) by (simp add: p_def q_def c_def)
  have rest: "take (length q + length c) (drop (index + 8) stream) = q @ c"
    using slice_append(2) [OF whole] by (simp add: lp)
  have "take 8 (drop (index + 8) stream) = q"
    using slice_append(1) [OF rest] by (simp add: lq)
  then have size: "unat (deserialize_size stream (index + 8)) = length d"
    using StringV.prems(2) by (intro size_field_read) (simp_all add: q_def)
  have "take (length d) (drop (index + 8 + 8) stream) = map byte_of_char d"
    using slice_append(2) [OF rest] by (simp add: lq lc c_def)
  then have "deserialize_chars stream (index + 8 + 8) (length d) = d"
    by (rule chars_read)
  then show ?case
    by (simp add: T size)
next
  case (VectorV d)
  then obtain T' where T: "T = Vector T'" and typed: "list_all (has_type T') d"
    by (cases T) simp_all
  define p where "p = bytes_of_size (of_nat len :: size_t)"
  define q where "q = bytes_of_size (of_nat (length d) :: size_t)"
  define c where "c = concat (map (\<lambda>x. record_bytes (object_length x) x) d)"
  have lp: "length p = 8" and lq: "length q = 8"
    by (simp_all add: p_def q_def length_bytes_of_size)
  have lc: "length c = sum_list (map object_length d)"
  proof -
    have "map (\<lambda>x. length (record_bytes (object_length x) x)) d = map object_length d"
      by (simp add: length_record_bytes)
    then have "sum_list (map (\<lambda>x. length (record_bytes (object_length x) x)) d) = sum_list (map object_length d)"
      by (rule arg_cong)
    then show ?thesis
      by (simp add: c_def length_concat comp_def del: map_eq_conv)
  qed
  have n_eq: "length p + length (q @ c) = object_length (VectorV d)"
    by (simp add: lp lq lc)
  have whole: "take (length p + length (q @ c)) (drop index stream) = p @ (q @ c)"
    unfolding n_eq using VectorV.prems(4) by (simp add: p_def q_def c_def)
  have rest: "take (length q + length c) (drop (index + 8) stream) = q @ c"
    using slice_append(2) [OF whole] by (simp add: lp)
  have "take 8 (drop (index + 8) stream) = q"
    using slice_append(1) [OF rest] by (simp add: lq)
  then have size: "unat (deserialize_size stream (index + 8)) = length d"
    using VectorV.prems(2) by (intro size_field_read) (simp_all add: q_def)
  have body: "take (sum_list (map object_length d)) (drop (index + 8 + 8) stream) = c"
    using slice_append(2) [OF rest] by (simp add: lq lc)
  have each: "\<And>x stream pos. x \<in> set d \<Longrightarrow>
             take (object_length x) (drop pos stream) = record_bytes (object_length x) x \<Longrightarrow>
             object_deserialize T' stream pos = x"
  proof -
    fix x stream pos
    assume x: "x \<in> set d"
      and bytes: "take (object_length x) (drop pos stream) = record_bytes (object_length x) x"
    have "has_type T' x" and "lengths_fit x"
      using x typed VectorV.prems(2) by (simp_all add: list_all_iff)
    then show "object_deserialize T' stream pos = x"
      using x bytes by (intro VectorV.IH [of x T' "object_length x"]) simp_all
  qed
  have "deserialize_elements T' stream (index + 8 + 8) (length d) = d"
    using body unfolding c_def by (intro elements_read each) simp_all
  then show ?case
    by (simp add: T size)
qed

lemma memcpy_slice:
  assumes "index + length src \<le> length stream"
  shows "take (length src) (drop index (memcpy stream index src)) = src"
proof -
  have "memcpy stream index src = take index stream @ src @ drop (index + length src) stream"
    using assms by (simp add: memcpy_def)
  moreover have "length (take index stream) = index"
    using assms by simp
  ultimately show ?thesis
    by simp
qed

section \<open>Removing entities\<close>

text \<open>
  An id that \<^verbatim>\<open>EntityManager::contains\<close> rejects, that is, one not below the number
  of entities ever created, is refused: the call stores the InvalidEntity code 6 and
  changes nothing else.
\<close>

lemma removeEntity_unknown_id:
  "\<not> EntityManager_contains e (m_entityManager s) \<Longrightarrow> removeEntity e s = s\<lparr>error := 6\<rparr>"
  by (simp add: removeEntity_def)

text \<open>
  C5 fails for an id that was removed and not handed out again. The entity manager
  knows that entity 0 of this engine is removed: the id is on the recycle list and
  \<^verbatim>\<open>entityActive\<close> is false for it. Still \<^verbatim>\<open>ecs::removeEntity\<close> guards only with
  \<^verbatim>\<open>EntityManager::contains\<close>, which compares the id with the number of entities
  ever created, so a second \<^verbatim>\<open>removeEntity(0)\<close> runs through: the error code stays 0,
  the id 0 is on the recycle list twice, and the count of live entities, which was 0,
  wraps to 4294967295. The next two calls of \<^verbatim>\<open>createEntity\<close> then both return the
  id 0.
\<close>

theorem C5_removed_id_is_not_rejected:
  "m_removedEntities (m_entityManager engine_removed) = [0]
   \<and> \<not> entityActive 0 (m_entityManager engine_removed)
   \<and> m_entityCount (m_entityManager engine_removed) = 0
   \<and> error (removeEntity 0 engine_removed) = 0
   \<and> m_removedEntities (m_entityManager (removeEntity 0 engine_removed)) = [0, 0]
   \<and> m_entityCount (m_entityManager (removeEntity 0 engine_removed)) = 4294967295
   \<and> fst (createEntity (removeEntity 0 engine_removed)) = 0
   \<and> fst (createEntity (snd (createEntity (removeEntity 0 engine_removed)))) = 0"
  by code_simp

section \<open>Index maps and the number of entities\<close>

text \<open>
  C6 at the sequence create, remove, create: the second \<^verbatim>\<open>createEntity\<close> reuses id 0,
  so \<^verbatim>\<open>numberOfEntities()\<close> stays 1, but \<^verbatim>\<open>ComponentManager::addEntity\<close> has pushed
  a second entry on the index map of \<^verbatim>\<open>bool\<close>.
\<close>

theorem C6_index_map_grows_on_reuse:
  "numberOfEntities engine_reused = 1
   \<and> length (m_indexMaps (m_componentManager engine_reused) ! 0) = 2"
  by code_simp

section \<open>Adding a component twice\<close>

text \<open>
  C4 at entity 0 of the engine with one system requiring \<^verbatim>\<open>float\<close>: the second
  \<^verbatim>\<open>addComponent<float>(0, v)\<close> stores the DoubleInsert code 1 and leaves the stored
  value as it was, but \<^verbatim>\<open>ecs::addComponent\<close> goes on to \<^verbatim>\<open>addComponentConfiguration\<close>,
  which inserts the entity into the system again: the matched list becomes
  \<^verbatim>\<open>[0, 0]\<close> and the entity's position changes from 0 to 1.
\<close>

theorem C4_double_insert_reaches_system:
  "error engine_float_added = 0
   \<and> ecs_entities 0 engine_float_added = [0]
   \<and> getMapping 0 engine_float_added = [0]
   \<and> error engine_float_added_twice = 1
   \<and> fst (getComponent (Trivial 4) 1 0 engine_float_added_twice) = TrivialV [1, 0, 0, 0]
   \<and> ecs_entities 0 engine_float_added_twice = [0, 0]
   \<and> getMapping 0 engine_float_added_twice = [1]"
  by code_simp

section \<open>Membership of inactive entities\<close>

text \<open>
  C1 at entity 0 of the engine with one system requiring \<^verbatim>\<open>float\<close>, after
  \<^verbatim>\<open>setActive(0, false)\<close> and \<^verbatim>\<open>addComponent<float>(0, v)\<close>: the entity is in the
  system's matched list and its bitmap has the required bit, but it is not active.
\<close>

theorem C1_inactive_entity_is_matched:
  "requirement (m_supplements (m_systemManager engine_inactive_added)
      ! unat (SystemType_id engine_inactive_added 0)) = [1]
   \<and> getBitmap 0 (m_entityManager engine_inactive_added) ! 1
   \<and> \<not> fst (active 0 engine_inactive_added)
   \<and> ecs_entities 0 engine_inactive_added = [0]"
  by code_simp

section \<open>Sentinels after a set\<close>

text \<open>
  C3 at the engine where entity 0 holds the string \<^verbatim>\<open>"a"\<close> and entity 1 holds no
  string: \<^verbatim>\<open>setComponent(0, "abc")\<close> adds the returned difference 10 to every entry of
  the index map that is greater than the record's index, the sentinel of entity 1
  included, which becomes 9. The bitmap bit of entity 1 for the string type is still
  false.
\<close>

theorem C3_set_moves_sentinel:
  "m_indexMaps (m_componentManager engine_string) ! 1 = [33, - 1]
   \<and> m_indexMaps (m_componentManager engine_string_set) ! 1 = [33, 9]
   \<and> \<not> getBitmap 1 (m_entityManager engine_string_set) ! 1
   \<and> containsComponent 1 1 engine_string_set"
  by code_simp

section \<open>Sharing a component\<close>

lemma remove_length_maps:
  "length (m_indexMaps (ComponentManager_remove tid index e cm)) = length (m_indexMaps cm)"
  by (simp add: ComponentManager_remove_def Let_def case_prod_beta)

lemma remove_map_at:
  "tid < length (m_indexMaps cm) \<Longrightarrow>
   m_indexMaps (ComponentManager_remove tid index e cm) ! tid =
     map (\<lambda>x. if x > index \<and> x \<noteq> - 1 then x - fst (overwrite index (m_componentArrays cm ! tid)) else x)
       ((m_indexMaps cm ! tid)[unat e := - 1])"
  by (simp add: ComponentManager_remove_def Let_def case_prod_beta)

lemma remove_arrays:
  "m_componentArrays (ComponentManager_remove tid index e cm) =
     (m_componentArrays cm)[tid := snd (overwrite index (m_componentArrays cm ! tid))]"
  by (simp add: ComponentManager_remove_def Let_def case_prod_beta)

lemma share_present:
  assumes "m_indexMaps cm ! tid ! unat e \<noteq> - 1"
  shows "snd (share T tid e donor cm) =
           (let cm1 = ComponentManager_remove tid (m_indexMaps cm ! tid ! unat e) e cm
            in cm1\<lparr>m_indexMaps := (m_indexMaps cm1)[tid := (m_indexMaps cm1 ! tid)[unat e := m_indexMaps cm1 ! tid ! unat donor]]\<rparr>)"
  using assms
  by (simp add: share_def ComponentManager_removeComponent_def Let_def split: prod.splits)

lemma shareComponent_cm:
  "EntityManager_contains e (m_entityManager s) \<Longrightarrow>
   m_componentManager (shareComponent T tid e donor s) = snd (share T tid e donor (m_componentManager s))"
  by (simp add: shareComponent_def addComponentConfiguration_cm record_error_cm split: prod.splits)

lemma compact_bytes:
  assumes "i + k \<le> length (m :: stream)"
  shows "vector_resize (length m - k) (memcpy m i (drop (i + k) m)) = take i m @ drop (i + k) m"
proof -
  define xs where "xs = take i m @ drop (i + k) m"
  have lx: "length xs = length m - k"
    using assms by (simp add: xs_def)
  have m1: "memcpy m i (drop (i + k) m) = xs @ drop (length m - k) m"
    using assms by (simp add: memcpy_def xs_def)
  have "vector_resize (length xs) (xs @ drop (length m - k) m) = xs"
    by (simp add: vector_resize_def)
  then have "vector_resize (length m - k) (memcpy m i (drop (i + k) m)) = xs"
    by (simp only: lx m1)
  then show ?thesis
    by (simp only: xs_def)
qed

lemma overwrite_snd:
  "m_components (snd (overwrite index ca)) =
     vector_resize (unat (of_nat (length (m_components ca)) - fst (overwrite index ca)))
       (memcpy (m_components ca) (unat index)
          (drop (unat index + unat (fst (overwrite index ca))) (m_components ca)))"
  by (simp add: overwrite_def Let_def)

lemma overwrite_compacts:
  assumes le: "unat index + unat (fst (overwrite index ca)) \<le> length (m_components ca)"
    and lt: "length (m_components ca) < 2 ^ 64"
  shows "m_components (snd (overwrite index ca)) =
           take (unat index) (m_components ca)
             @ drop (unat index + unat (fst (overwrite index ca))) (m_components ca)"
proof -
  have um: "unat (of_nat (length (m_components ca)) :: size_t) = length (m_components ca)"
    using lt by (simp add: unat_of_nat)
  have ole: "fst (overwrite index ca) \<le> of_nat (length (m_components ca))"
    using le um by (simp add: word_le_nat_alt)
  have usub: "unat (of_nat (length (m_components ca)) - fst (overwrite index ca)) =
                length (m_components ca) - unat (fst (overwrite index ca))"
    using ole um by (simp add: unat_sub)
  show ?thesis
    by (simp only: overwrite_snd [of index ca] usub compact_bytes [OF le])
qed

lemma overwrite_fst:
  "fst (overwrite index ca) =
     (if ComponentArray_complex ca then deserialize_size (m_components ca) (unat index) + 8
      else of_nat (componentSize ca))"
  by (simp add: overwrite_def Let_def)

text \<open>
  C10: when \<^verbatim>\<open>e\<close> already holds a component of type \<^verbatim>\<open>T\<close>,
  \<^verbatim>\<open>shareComponent<T>(e, donor)\<close> first removes the record of \<^verbatim>\<open>e\<close>. The record
  starts at the index-map entry of \<^verbatim>\<open>e\<close> and is \<^verbatim>\<open>componentSize\<close> bytes long in a
  pool of a trivially copyable type, and its stored length plus the eight bytes of the
  length field otherwise. The pool loses exactly these bytes, the bytes behind them
  move up, and every other entry of the index map that lies behind the record and is
  not the sentinel is lowered by the record's size; no other pool and no other index
  map changes. Only then the entry of \<^verbatim>\<open>e\<close> is set to the entry that \<^verbatim>\<open>donor\<close> has
  at that moment, so the two entries are equal afterwards.
\<close>

theorem C10_share_replaces_then_aliases:
  assumes valid: "EntityManager_contains e (m_entityManager s)"
    and tid: "tid < length (m_indexMaps (m_componentManager s))"
    and tida: "tid < length (m_componentArrays (m_componentManager s))"
    and e: "unat e < length (m_indexMaps (m_componentManager s) ! tid)"
    and donor: "unat donor < length (m_indexMaps (m_componentManager s) ! tid)"
    and holds: "m_indexMaps (m_componentManager s) ! tid ! unat e \<noteq> - 1"
    and inside: "unat (m_indexMaps (m_componentManager s) ! tid ! unat e)
                   + unat (if ComponentArray_complex (m_componentArrays (m_componentManager s) ! tid)
                           then deserialize_size (m_components (m_componentArrays (m_componentManager s) ! tid))
                                  (unat (m_indexMaps (m_componentManager s) ! tid ! unat e)) + 8
                           else of_nat (componentSize (m_componentArrays (m_componentManager s) ! tid)) :: size_t)
                 \<le> length (m_components (m_componentArrays (m_componentManager s) ! tid))"
    and size: "length (m_components (m_componentArrays (m_componentManager s) ! tid)) < 2 ^ 64"
  shows "let cm = m_componentManager s;
             index = m_indexMaps cm ! tid ! unat e;
             array = m_componentArrays cm ! tid;
             pool = m_components array;
             extent = (if ComponentArray_complex array then deserialize_size pool (unat index) + 8
                       else of_nat (componentSize array));
             cm' = m_componentManager (shareComponent T tid e donor s);
             adjust = (\<lambda>x. if x > index \<and> x \<noteq> - 1 then x - extent else x)
         in m_components (m_componentArrays cm' ! tid) =
              take (unat index) pool @ drop (unat index + unat extent) pool
            \<and> componentSize (m_componentArrays cm' ! tid) = componentSize array
            \<and> length (m_componentArrays cm') = length (m_componentArrays cm)
            \<and> length (m_indexMaps cm') = length (m_indexMaps cm)
            \<and> (\<forall>u < length (m_componentArrays cm). u \<noteq> tid \<longrightarrow>
                   m_componentArrays cm' ! u = m_componentArrays cm ! u)
            \<and> (\<forall>u < length (m_indexMaps cm). u \<noteq> tid \<longrightarrow> m_indexMaps cm' ! u = m_indexMaps cm ! u)
            \<and> length (m_indexMaps cm' ! tid) = length (m_indexMaps cm ! tid)
            \<and> (\<forall>i < length (m_indexMaps cm ! tid). i \<noteq> unat e \<longrightarrow>
                   m_indexMaps cm' ! tid ! i = adjust (m_indexMaps cm ! tid ! i))
            \<and> m_indexMaps cm' ! tid ! unat e = (if donor = e then - 1 else adjust (m_indexMaps cm ! tid ! unat donor))
            \<and> m_indexMaps cm' ! tid ! unat e = m_indexMaps cm' ! tid ! unat donor"
proof -
  define cm where "cm = m_componentManager s"
  define index where "index = m_indexMaps cm ! tid ! unat e"
  define array where "array = m_componentArrays cm ! tid"
  define pool where "pool = m_components array"
  define extent :: size_t where "extent = (if ComponentArray_complex array then deserialize_size pool (unat index) + 8
                       else of_nat (componentSize array))"
  define adjust where "adjust = (\<lambda>x. if x > index \<and> x \<noteq> - 1 then x - extent else x)"
  define removed where "removed = ComponentManager_remove tid index e cm"
  define cm' where "cm' = m_componentManager (shareComponent T tid e donor s)"
  have offset: "fst (overwrite index array) = extent"
    by (simp add: overwrite_fst extent_def pool_def)
  have cm': "cm' = removed\<lparr>m_indexMaps := (m_indexMaps removed)[tid := (m_indexMaps removed ! tid)[unat e := m_indexMaps removed ! tid ! unat donor]]\<rparr>"
    using holds
    by (simp add: cm'_def shareComponent_cm [OF valid] share_present removed_def index_def cm_def Let_def)
  have len: "tid < length (m_indexMaps removed)"
    using tid by (simp add: removed_def remove_length_maps cm_def)
  have rmap: "m_indexMaps removed ! tid = map adjust ((m_indexMaps cm ! tid)[unat e := - 1])"
    using tid
    by (simp add: removed_def remove_map_at cm_def adjust_def overwrite_fst extent_def pool_def array_def)
  have lene: "unat e < length (m_indexMaps removed ! tid)"
    using e by (simp add: rmap cm_def)
  have b: "m_indexMaps cm' ! tid = (m_indexMaps removed ! tid)[unat e := m_indexMaps removed ! tid ! unat donor]"
    using len by (simp add: cm')
  have arr: "m_componentArrays cm' = (m_componentArrays cm)[tid := snd (overwrite index array)]"
    by (simp add: cm' removed_def remove_arrays array_def)
  have inside': "unat index + unat (fst (overwrite index array)) \<le> length (m_components array)"
    using inside
    by (simp add: overwrite_fst array_def index_def cm_def)
  have size': "length (m_components array) < 2 ^ 64"
    using size by (simp only: array_def cm_def)
  have pool: "m_components (m_componentArrays cm' ! tid) =
                take (unat index) pool @ drop (unat index + unat extent) pool"
  proof -
    have "m_componentArrays cm' ! tid = snd (overwrite index array)"
      using tida by (simp add: arr cm_def)
    then show ?thesis
      using overwrite_compacts [OF inside' size'] by (simp add: offset pool_def)
  qed
  have csize: "componentSize (m_componentArrays cm' ! tid) = componentSize array"
  proof -
    have "m_componentArrays cm' ! tid = snd (overwrite index array)"
      using tida by (simp add: arr cm_def)
    then show ?thesis
      by (simp add: overwrite_def Let_def)
  qed
  have la: "length (m_componentArrays cm') = length (m_componentArrays cm)"
    by (simp add: arr)
  have lm: "length (m_indexMaps cm') = length (m_indexMaps cm)"
    by (simp add: cm' removed_def remove_length_maps)
  have oa: "\<forall>u < length (m_componentArrays cm). u \<noteq> tid \<longrightarrow> m_componentArrays cm' ! u = m_componentArrays cm ! u"
    by (simp add: arr)
  have om: "\<forall>u < length (m_indexMaps cm). u \<noteq> tid \<longrightarrow> m_indexMaps cm' ! u = m_indexMaps cm ! u"
    by (simp add: cm' removed_def ComponentManager_remove_def Let_def case_prod_beta)
  have lt: "length (m_indexMaps cm' ! tid) = length (m_indexMaps cm ! tid)"
    by (simp add: b rmap)
  have others: "\<forall>i < length (m_indexMaps cm ! tid). i \<noteq> unat e \<longrightarrow>
                  m_indexMaps cm' ! tid ! i = adjust (m_indexMaps cm ! tid ! i)"
    by (simp add: b rmap)
  have sentinel_fixed: "adjust (- 1) = - 1"
    by (simp add: adjust_def)
  have donor_entry: "m_indexMaps removed ! tid ! unat donor =
                       (if donor = e then - 1 else adjust (m_indexMaps cm ! tid ! unat donor))"
  proof (cases "donor = e")
    case True
    then show ?thesis using e by (simp add: rmap cm_def sentinel_fixed)
  next
    case False
    then have ne: "unat donor \<noteq> unat e"
      by (simp add: word_unat_eq_iff)
    show ?thesis
      using False ne donor by (simp add: rmap cm_def)
  qed
  have c: "m_indexMaps cm' ! tid ! unat e = m_indexMaps cm' ! tid ! unat donor"
  proof (cases "unat donor = unat e")
    case True
    then show ?thesis by simp
  next
    case False
    then show ?thesis using lene by (simp add: b)
  qed
  have d: "m_indexMaps cm' ! tid ! unat e = (if donor = e then - 1 else adjust (m_indexMaps cm ! tid ! unat donor))"
    using lene donor_entry by (simp add: b)
  show ?thesis
    unfolding Let_def
    using pool csize la lm oa om lt others d c
    unfolding cm'_def adjust_def extent_def pool_def array_def index_def cm_def
    by (intro conjI) assumption+
qed

text \<open>
  In the engine where entities 0 and 1 both hold a \<^verbatim>\<open>float\<close>, entity 0 receives the
  component of entity 1. The pool of \<^verbatim>\<open>float\<close> holds the flag byte, the default slot
  and the two records, at the indices 5 and 9; the record of entity 0 leaves the pool,
  the record of entity 1 moves to index 5, and both entries are 5.
\<close>

theorem C10_share_replaces_then_aliases_witness:
  "EntityManager_contains 0 (m_entityManager engine_two_floats)
   \<and> m_indexMaps (m_componentManager engine_two_floats) ! 1 = [5, 9]
   \<and> m_components (m_componentArrays (m_componentManager engine_two_floats) ! 1)
       = [0, 0, 0, 0, 0, 1, 0, 0, 0, 2, 0, 0, 0]
   \<and> m_components (m_componentArrays (m_componentManager (shareComponent (Trivial 4) 1 0 1 engine_two_floats)) ! 1)
       = [0, 0, 0, 0, 0, 2, 0, 0, 0]
   \<and> m_indexMaps (m_componentManager (shareComponent (Trivial 4) 1 0 1 engine_two_floats)) ! 1 ! unat (0 :: entity)
       = m_indexMaps (m_componentManager (shareComponent (Trivial 4) 1 0 1 engine_two_floats)) ! 1 ! unat (1 :: entity)
   \<and> m_indexMaps (m_componentManager (shareComponent (Trivial 4) 1 0 1 engine_two_floats)) ! 1 ! unat (0 :: entity) = 5"
proof -
  have h1: "EntityManager_contains 0 (m_entityManager engine_two_floats)"
    by code_simp
  have h2: "1 < length (m_indexMaps (m_componentManager engine_two_floats))"
    by code_simp
  have h3: "1 < length (m_componentArrays (m_componentManager engine_two_floats))"
    by code_simp
  have h4: "unat (0 :: entity) < length (m_indexMaps (m_componentManager engine_two_floats) ! 1)"
    by code_simp
  have h5: "unat (1 :: entity) < length (m_indexMaps (m_componentManager engine_two_floats) ! 1)"
    by code_simp
  have h6: "m_indexMaps (m_componentManager engine_two_floats) ! 1 ! unat (0 :: entity) \<noteq> - 1"
    by code_simp
  have h7: "unat (m_indexMaps (m_componentManager engine_two_floats) ! 1 ! unat (0 :: entity))
                   + unat (if ComponentArray_complex (m_componentArrays (m_componentManager engine_two_floats) ! 1)
                           then deserialize_size (m_components (m_componentArrays (m_componentManager engine_two_floats) ! 1))
                                  (unat (m_indexMaps (m_componentManager engine_two_floats) ! 1 ! unat (0 :: entity))) + 8
                           else of_nat (componentSize (m_componentArrays (m_componentManager engine_two_floats) ! 1)) :: size_t)
                 \<le> length (m_components (m_componentArrays (m_componentManager engine_two_floats) ! 1))"
    by code_simp
  have pool: "m_components (m_componentArrays (m_componentManager engine_two_floats) ! 1)
                = [0, 0, 0, 0, 0, 1, 0, 0, 0, 2, 0, 0, 0]"
    by code_simp
  have maps: "m_indexMaps (m_componentManager engine_two_floats) ! 1 = [5, 9]"
    by code_simp
  have csize: "componentSize (m_componentArrays (m_componentManager engine_two_floats) ! 1) = 4"
    by code_simp
  have flat: "\<not> ComponentArray_complex (m_componentArrays (m_componentManager engine_two_floats) ! 1)"
    by code_simp
  have h8: "length (m_components (m_componentArrays (m_componentManager engine_two_floats) ! 1)) < 2 ^ 64"
    unfolding pool by simp
  note r = C10_share_replaces_then_aliases [OF h1 h2 h3 h4 h5 h6 h7 h8, of "Trivial 4", unfolded Let_def if_not_P [OF flat]]
  have p': "m_components (m_componentArrays (m_componentManager (shareComponent (Trivial 4) 1 0 1 engine_two_floats)) ! 1)
              = [0, 0, 0, 0, 0, 2, 0, 0, 0]"
    using r [THEN conjunct1] unfolding pool maps csize by simp
  have same: "m_indexMaps (m_componentManager (shareComponent (Trivial 4) 1 0 1 engine_two_floats)) ! 1 ! unat (0 :: entity)
       = m_indexMaps (m_componentManager (shareComponent (Trivial 4) 1 0 1 engine_two_floats)) ! 1 ! unat (1 :: entity)"
    using r by (elim conjE)
  have five: "m_indexMaps (m_componentManager (shareComponent (Trivial 4) 1 0 1 engine_two_floats)) ! 1 ! unat (0 :: entity) = 5"
    using r [THEN conjunct2, THEN conjunct2, THEN conjunct2, THEN conjunct2, THEN conjunct2, THEN conjunct2,
             THEN conjunct2, THEN conjunct2, THEN conjunct1]
    unfolding pool maps csize by simp
  show ?thesis
    using h1 maps pool p' same five by (intro conjI) assumption+
qed

section \<open>Components of a fresh entity\<close>

text \<open>
  C9, as stated, fails for the type \<^verbatim>\<open>bool\<close>: \<^verbatim>\<open>createEntity\<close> itself calls
  \<^verbatim>\<open>addComponent<bool>(e, true)\<close>, so the first entity of a new engine already holds
  that component.
\<close>

theorem C9_fresh_entity_holds_bool:
  "fst (createEntity (ecs_new registry_bool)) = 0
   \<and> containsComponent (ComponentType_bool registry_bool) 0 (snd (createEntity (ecs_new registry_bool)))"
  by code_simp

lemma EntityManager_createEntity_fresh:
  assumes "m_removedEntities em = []"
  shows "fst (EntityManager_createEntity idCount em) = m_entityCount em"
    and "m_entityCount (snd (EntityManager_createEntity idCount em)) = m_entityCount em + 1"
    and "m_removedEntities (snd (EntityManager_createEntity idCount em)) = []"
  using assms by (simp_all add: EntityManager_createEntity_def Let_def)

lemma word_less_succ:
  assumes "(e :: entity) \<noteq> - 1"
  shows "e < e + 1"
proof -
  have "unat e \<noteq> unat (- 1 :: entity)"
    using assms by (simp add: word_unat_eq_iff)
  then have "unat e \<noteq> 2 ^ 32 - 1"
    by (simp add: unsigned_minus_1_eq_mask mask_eq_exp_minus_1)
  moreover have "unat e < 2 ^ 32"
    using unsigned_less [of e] by simp
  ultimately have "unat e + unat (1 :: entity) < 2 ^ LENGTH(32)"
    by simp
  then have "unat (e + 1) = unat e + unat (1 :: entity)"
    by (simp only: unat_add_lem)
  then show ?thesis
    by (simp add: word_less_nat_alt)
qed

lemma unissued_entry:
  assumes "unissued_absent s" and "t < length (m_indexMaps (m_componentManager s))"
  shows "(m_indexMaps (m_componentManager s) ! t @ [- 1]) ! unat (m_entityCount (m_entityManager s)) = - 1"
    and "unat (m_entityCount (m_entityManager s)) < length (m_indexMaps (m_componentManager s) ! t @ [- 1])"
proof -
  define m where "m = m_indexMaps (m_componentManager s) ! t"
  define k where "k = unat (m_entityCount (m_entityManager s))"
  have mem: "m \<in> set (m_indexMaps (m_componentManager s))"
    using assms(2) by (simp add: m_def)
  have le: "k \<le> length m" and all: "list_all (\<lambda>x. x = - 1) (drop k m)"
    using assms(1) mem by (auto simp add: unissued_absent_def list_all_iff k_def)
  show "(m @ [- 1]) ! k = - 1"
  proof (cases "k < length m")
    case True
    then have "m ! k \<in> set (drop k m)"
      by (metis Cons_nth_drop_Suc list.set_intros(1))
    then have "m ! k = - 1"
      using all by (simp add: list_all_iff)
    then show ?thesis
      using True by (simp add: nth_append)
  next
    case False
    then have "k = length m"
      using le by simp
    then show ?thesis
      by simp
  qed
  show "k < length (m @ [- 1])"
    using le by simp
qed

lemma createEntity_unfold:
  assumes fresh: "m_removedEntities (m_entityManager s) = []"
    and room: "m_entityCount (m_entityManager s) \<noteq> - 1"
    and maps: "length (m_indexMaps (m_componentManager s)) = ComponentManager_idCount s"
  shows "fst (createEntity s) = m_entityCount (m_entityManager s)"
    and "m_componentManager (snd (createEntity s)) =
           snd (ComponentManager_addComponent (ComponentType_bool s) (TrivialV [bool_byte True])
                  (m_entityCount (m_entityManager s))
                  (ComponentManager_addEntity (ComponentManager_idCount s) (m_componentManager s)))"
    and "EntityManager_contains (m_entityCount (m_entityManager s)) (m_entityManager (snd (createEntity s)))"
proof -
  define e where "e = m_entityCount (m_entityManager s)"
  define em1 where "em1 = snd (EntityManager_createEntity (ComponentManager_idCount s) (m_entityManager s))"
  have fst_e: "fst (EntityManager_createEntity (ComponentManager_idCount s) (m_entityManager s)) = e"
    using fresh by (simp add: EntityManager_createEntity_fresh e_def)
  have "totalEntityCount em1 = e + 1"
    using fresh by (simp add: totalEntityCount_def em1_def EntityManager_createEntity_fresh e_def)
  then have cont: "EntityManager_contains e em1"
    using room word_less_succ [of e] by (simp add: EntityManager_contains_def e_def)
  have upd: "ComponentManager_update (ComponentManager_idCount s) (spaceBuffer s) (complexBuffer s)
               (unat (totalEntityCount (m_entityManager s))) (m_componentManager s) = m_componentManager s"
    using maps by (simp add: ComponentManager_update_same)
  show "fst (createEntity s) = m_entityCount (m_entityManager s)"
    using fst_e by (simp add: createEntity_def Let_def case_prod_beta e_def)
  show "m_componentManager (snd (createEntity s)) =
           snd (ComponentManager_addComponent (ComponentType_bool s) (TrivialV [bool_byte True])
                  (m_entityCount (m_entityManager s))
                  (ComponentManager_addEntity (ComponentManager_idCount s) (m_componentManager s)))"
    using fst_e cont upd
    by (simp add: createEntity_def Let_def case_prod_beta addComponent_cm em1_def e_def)
  show "EntityManager_contains (m_entityCount (m_entityManager s)) (m_entityManager (snd (createEntity s)))"
    using fst_e cont
    by (simp add: createEntity_def Let_def case_prod_beta addComponent_contains em1_def e_def)
qed

lemma ComponentManager_addComponent_arrays_other:
  "t \<noteq> tid \<Longrightarrow>
   m_componentArrays (snd (ComponentManager_addComponent tid v e cm)) ! t = m_componentArrays cm ! t"
  by (simp add: ComponentManager_addComponent_def Let_def case_prod_beta)

lemma ComponentManager_addComponent_present:
  assumes "tid < length (m_indexMaps cm)"
    and "unat e < length (m_indexMaps cm ! tid)"
    and "m_indexMaps cm ! tid ! unat e \<noteq> - 1
         \<or> length (m_components (m_componentArrays cm ! tid)) < 2 ^ 64 - 1"
  shows "m_indexMaps (snd (ComponentManager_addComponent tid v e cm)) ! tid ! unat e \<noteq> - 1"
proof (cases "m_indexMaps cm ! tid ! unat e = - 1")
  case True
  then have "length (m_components (m_componentArrays cm ! tid)) < 2 ^ 64 - 1"
    using assms(3) by simp
  then have "(of_nat (length (m_components (m_componentArrays cm ! tid))) :: size_t) \<noteq> - 1"
    by (rule pool_size_not_sentinel)
  then show ?thesis
    using assms(1,2) True by (simp add: ComponentManager_addComponent_absent)
next
  case False
  then show ?thesis
    using assms(1,2)
    by (simp add: ComponentManager_addComponent_def ComponentArray_addComponent_def Let_def)
qed

text \<open>
  C9, amended: right after \<^verbatim>\<open>createEntity()\<close> has returned a fresh id (the recycle
  list was empty), the entity holds the built-in \<^verbatim>\<open>bool\<close> component that
  \<^verbatim>\<open>createEntity\<close> attaches, and no component of any other type; a following
  \<^verbatim>\<open>addComponent<T>\<close> makes \<^verbatim>\<open>containsComponent<T>\<close> true. The engine is one whose
  index maps hold the sentinel at every position from the fresh id on.
\<close>

theorem C9_fresh_entity_holds_only_bool:
  assumes fresh: "m_removedEntities (m_entityManager s) = []"
    and room: "m_entityCount (m_entityManager s) \<noteq> - 1"
    and maps: "length (m_indexMaps (m_componentManager s)) = ComponentManager_idCount s"
    and bool: "ComponentType_bool s < ComponentManager_idCount s"
    and tid: "tid < ComponentManager_idCount s"
    and unissued: "unissued_absent s"
    and size_bool: "length (m_components (m_componentArrays (m_componentManager s) ! ComponentType_bool s)) < 2 ^ 64 - 1"
    and size_tid: "length (m_components (m_componentArrays (m_componentManager s) ! tid)) < 2 ^ 64 - 1"
  shows "fst (createEntity s) = m_entityCount (m_entityManager s)
         \<and> containsComponent tid (fst (createEntity s)) (snd (createEntity s)) = (tid = ComponentType_bool s)
         \<and> containsComponent tid (fst (createEntity s)) (addComponent tid (fst (createEntity s)) v (snd (createEntity s)))"
proof -
  define e where "e = m_entityCount (m_entityManager s)"
  define n where "n = ComponentManager_idCount s"
  define b where "b = ComponentType_bool s"
  define cm where "cm = m_componentManager s"
  define cm1 where "cm1 = ComponentManager_addEntity n cm"
  define cm2 where "cm2 = snd (ComponentManager_addComponent b (TrivialV [bool_byte True]) e cm1)"
  have fst_e: "fst (createEntity s) = e"
    using createEntity_unfold(1) [OF fresh room maps] by (simp add: e_def)
  have cm_s': "m_componentManager (snd (createEntity s)) = cm2"
    using createEntity_unfold(2) [OF fresh room maps] by (simp add: cm2_def cm1_def e_def n_def b_def cm_def)
  have cont: "EntityManager_contains e (m_entityManager (snd (createEntity s)))"
    using createEntity_unfold(3) [OF fresh room maps] by (simp add: e_def)
  have len: "n = length (m_indexMaps cm)"
    using maps by (simp add: n_def cm_def)
  have len1: "length (m_indexMaps cm1) = n"
    using len by (simp add: cm1_def ComponentManager_addEntity_length)
  have map1: "\<And>t. t < n \<Longrightarrow> m_indexMaps cm1 ! t = m_indexMaps cm ! t @ [- 1]"
    using len by (simp add: cm1_def ComponentManager_addEntity_map)
  have entry1: "\<And>t. t < n \<Longrightarrow> m_indexMaps cm1 ! t ! unat e = - 1"
    using unissued_entry(1) [OF unissued] len map1 by (simp add: e_def cm_def)
  have inside1: "\<And>t. t < n \<Longrightarrow> unat e < length (m_indexMaps cm1 ! t)"
    using unissued_entry(2) [OF unissued] len map1 by (simp add: e_def cm_def)
  have bn: "b < n" and tn: "tid < n"
    using bool tid by (simp_all add: b_def n_def)
  have arr1: "m_componentArrays cm1 = m_componentArrays cm"
    by (simp add: cm1_def ComponentManager_addEntity_arrays)
  have maps2: "m_indexMaps cm2 =
                 (m_indexMaps cm1)[b := (m_indexMaps cm1 ! b)
                    [unat e := of_nat (length (m_components (m_componentArrays cm ! b)))]]"
    using entry1 [OF bn] by (simp add: cm2_def ComponentManager_addComponent_absent arr1)
  have pool_b: "(of_nat (length (m_components (m_componentArrays cm ! b))) :: size_t) \<noteq> - 1"
    using size_bool by (intro pool_size_not_sentinel) (simp add: cm_def b_def)
  have len2: "length (m_indexMaps cm2) = n"
    by (simp add: maps2 len1)
  have entry2: "(m_indexMaps cm2 ! tid ! unat e \<noteq> - 1) = (tid = b)"
  proof (cases "tid = b")
    case True
    then show ?thesis
      using bn len1 inside1 [OF bn] pool_b by (simp add: maps2)
  next
    case False
    then show ?thesis
      using tn len1 entry1 [OF tn] by (simp add: maps2)
  qed
  have inside2: "unat e < length (m_indexMaps cm2 ! tid)"
    using tn bn len1 inside1 [OF tn] by (cases "tid = b") (simp_all add: maps2)
  have second: "containsComponent tid e (snd (createEntity s)) = (tid = b)"
    using entry2 by (simp add: containsComponent_def ComponentManager_containsComponent_def cm_s')
  have pool_tid: "m_indexMaps cm2 ! tid ! unat e \<noteq> - 1
                  \<or> length (m_components (m_componentArrays cm2 ! tid)) < 2 ^ 64 - 1"
  proof (cases "tid = b")
    case True
    then show ?thesis using entry2 by simp
  next
    case False
    then have "m_componentArrays cm2 ! tid = m_componentArrays cm ! tid"
      by (simp add: cm2_def ComponentManager_addComponent_arrays_other arr1)
    then show ?thesis
      using size_tid by (simp add: cm_def)
  qed
  have "m_indexMaps (snd (ComponentManager_addComponent tid v e cm2)) ! tid ! unat e \<noteq> - 1"
    using tn len2 inside2 pool_tid by (intro ComponentManager_addComponent_present) simp_all
  then have third: "containsComponent tid e (addComponent tid e v (snd (createEntity s)))"
    using cont by (simp add: containsComponent_def ComponentManager_containsComponent_def addComponent_cm cm_s')
  show ?thesis
    using fst_e second third by (simp add: e_def b_def)
qed

text \<open>
  The engine with two entities, one of which holds a string: the third entity is fresh.
\<close>

theorem C9_fresh_entity_holds_only_bool_witness:
  "m_removedEntities (m_entityManager engine_string) = []
   \<and> unissued_absent engine_string
   \<and> fst (createEntity engine_string) = 2
   \<and> \<not> containsComponent 1 (fst (createEntity engine_string)) (snd (createEntity engine_string))
   \<and> containsComponent 1 (fst (createEntity engine_string))
        (addComponent 1 (fst (createEntity engine_string)) (StringV ''x'') (snd (createEntity engine_string)))"
proof -
  have h1: "m_removedEntities (m_entityManager engine_string) = []"
    by code_simp
  have cnt: "m_entityCount (m_entityManager engine_string) = 2"
    by code_simp
  then have h2: "m_entityCount (m_entityManager engine_string) \<noteq> - 1"
    by simp
  have h3: "length (m_indexMaps (m_componentManager engine_string)) = ComponentManager_idCount engine_string"
    by code_simp
  have h4: "ComponentType_bool engine_string < ComponentManager_idCount engine_string"
    by code_simp
  have h5: "1 < ComponentManager_idCount engine_string"
    by code_simp
  have h6: "unissued_absent engine_string"
    by code_simp
  have "length (m_components (m_componentArrays (m_componentManager engine_string) ! ComponentType_bool engine_string)) = 4"
    by code_simp
  then have h7: "length (m_components (m_componentArrays (m_componentManager engine_string) ! ComponentType_bool engine_string)) < 2 ^ 64 - 1"
    by simp
  have "length (m_components (m_componentArrays (m_componentManager engine_string) ! 1)) = 50"
    by code_simp
  then have h8: "length (m_components (m_componentArrays (m_componentManager engine_string) ! 1)) < 2 ^ 64 - 1"
    by simp
  have b: "ComponentType_bool engine_string = 0"
    by code_simp
  note r = C9_fresh_entity_holds_only_bool [OF h1 h2 h3 h4 h5 h6 h7 h8, of "StringV ''x''"]
  show ?thesis
    using h1 h6 r cnt b by auto
qed

section \<open>The order of systems\<close>

text \<open>
  C2, as stated, fails already for two systems: created with the priorities
  \<^verbatim>\<open>-100\<close> and \<^verbatim>\<open>0\<close>, as in \<^verbatim>\<open>main.cpp\<close>, they are stored and called in the
  order \<^verbatim>\<open>-100, 0\<close>, the lower priority first: \<^verbatim>\<open>createSystem\<close> moves the new
  system in front of an entry only if that entry's priority is greater.
\<close>

theorem C2_lower_priority_runs_first:
  "system_priorities 2 engine_two_systems = [Some (- 100), Some 0]
   \<and> run_calls 0 engine_two_systems = [(Some 0, Some (- 100), 0), (Some 1, Some 0, 0)]
   \<and> run_priorities 0 engine_two_systems = [Some (- 100), Some 0]
   \<and> \<not> sorted_wrt (\<lambda>p q. p \<ge> q) (map the (run_priorities 0 engine_two_systems))"
  by code_simp

text \<open>
  A priority that lies between existing ones is not always placed between them: the
  loop of \<^verbatim>\<open>createSystem\<close> compares with the middle entry and then moves by the
  full remaining step. Created with the priorities 1, 3 and 2, the three systems end
  up in the order 2, 1, 3.
\<close>

lemma createSystem_between_priorities:
  "system_priorities 3 engine_three_systems = [Some 2, Some 1, Some 3]"
  by code_simp

text \<open>
  A system type whose static id is 1 cannot be created before the type with the id 0:
  the loop would read the priority of a slot that holds no system.
\<close>

lemma createSystem_before_lower_slot:
  "Option.is_none (createSystem 1 [0] [0] 0 (ecs_new registry_two_systems))"
  by code_simp

text \<open>
  Equal priorities: a second system created with the priority \<^verbatim>\<open>-100\<close> of the first
  is stored and called behind it.
\<close>

lemma createSystem_equal_priorities:
  "map_option (run_calls 0) (createSystem 1 [0] [0] (- 100) engine_one_system)
     = Some [(Some 0, Some (- 100), 0), (Some 1, Some (- 100), 0)]"
  by code_simp

text \<open>The arithmetic of the search loop on 32-bit values.\<close>

lemma word_half_facts:
  fixes index :: "32 word"
  shows "unat (index div 2) = unat index div 2"
    and "unat (index mod 2) = unat index mod 2"
    and "unat (index div 2 + index mod 2) = unat index div 2 + unat index mod 2"
proof -
  show a: "unat (index div 2) = unat index div 2"
    by (simp add: unat_div)
  show b: "unat (index mod 2) = unat index mod 2"
    by (simp add: unat_mod)
  have "unat index div 2 + unat index mod 2 \<le> unat index"
    by presburger
  moreover have "unat index < 2 ^ LENGTH(32)"
    by (rule unsigned_less)
  ultimately have "unat (index div 2) + unat (index mod 2) < 2 ^ LENGTH(32)"
    using a b by simp
  then show "unat (index div 2 + index mod 2) = unat index div 2 + unat index mod 2"
    using a b by (simp only: unat_add_lem [THEN iffD1])
qed

lemma half_lt:
  fixes index :: "32 word"
  assumes "index div 2 \<noteq> 0"
  shows "unat (index div 2) < unat index"
proof -
  have "unat (index div 2) \<noteq> 0"
    using assms unat_eq_zero by blast
  then have "unat index div 2 \<noteq> 0"
    by (simp add: word_half_facts(1))
  then have "unat index div 2 < unat index"
    by presburger
  then show ?thesis
    by (simp add: word_half_facts(1))
qed

lemma half_zero:
  fixes index :: "32 word"
  assumes "index div 2 = 0"
  shows "unat index div 2 = 0"
proof -
  have "unat (index div 2) = 0"
    using assms by simp
  then show ?thesis
    by (simp add: word_half_facts(1))
qed

lemma half_sub:
  fixes index :: "32 word"
  shows "index - (index div 2 + index mod 2) = index div 2"
proof -
  have "index = (index div 2 + index div 2) + index mod 2"
    using div_mult_mod_eq [of index 2] by (simp add: mult_2_right)
  then have "index - (index div 2 + index mod 2) = ((index div 2 + index div 2) + index mod 2) - (index div 2 + index mod 2)"
    by simp
  also have "\<dots> = index div 2"
    by (simp add: algebra_simps)
  finally show ?thesis .
qed

lemma search_slot_step_up:
  "ps ! unat tot = Some p \<Longrightarrow> \<not> prio < p \<Longrightarrow>
   search_slot ps prio sid index tot =
     (if index div 2 \<noteq> 0
      then search_slot ps prio sid (index div 2) (tot + (index div 2 + index mod 2))
      else Some (tot + (index div 2 + index mod 2) + sid mod 2))"
  by (subst search_slot.simps) (simp add: Let_def)

lemma search_slot_step_down:
  "ps ! unat tot = Some p \<Longrightarrow> prio < p \<Longrightarrow>
   search_slot ps prio sid index tot =
     (if index div 2 \<noteq> 0
      then search_slot ps prio sid (index div 2) (tot - (index div 2 + index mod 2))
      else Some (tot - (index div 2 + index mod 2)))"
  by (subst search_slot.simps) (simp add: Let_def)

lemma search_slot_first:
  assumes "\<And>i. i < unat sid \<Longrightarrow> \<exists>p. ps ! i = Some p \<and> prio < p"
    and "unat index < unat sid"
  shows "search_slot ps prio sid index index = Some 0"
  using assms(2)
proof (induction "unat index" arbitrary: index rule: less_induct)
  case less
  obtain p where p: "ps ! unat index = Some p" and cmp: "prio < p"
    using assms(1) less.prems by blast
  have step: "search_slot ps prio sid index index =
                (if index div 2 \<noteq> 0 then search_slot ps prio sid (index div 2) (index div 2)
                 else Some (index div 2))"
    using search_slot_step_down [OF p cmp, where sid = sid and index = index]
    by (simp only: half_sub)
  show ?case
  proof (cases "index div 2 = 0")
    case True
    then show ?thesis
      by (simp only: step) simp
  next
    case False
    have lt: "unat (index div 2) < unat index"
      using False by (rule half_lt)
    then have "unat (index div 2) < unat sid"
      using less.prems by simp
    then have "search_slot ps prio sid (index div 2) (index div 2) = Some 0"
      by (rule less.hyps [OF lt])
    then show ?thesis
      using False by (simp only: step) simp
  qed
qed

lemma search_slot_last:
  assumes "\<And>i. i < unat sid \<Longrightarrow> \<exists>p. ps ! i = Some p \<and> \<not> prio < p"
    and "unat tot + unat index + unat sid mod 2 = unat sid"
    and "index \<noteq> 0 \<or> unat sid mod 2 = 1"
  shows "search_slot ps prio sid index tot = Some sid"
  using assms(2,3)
proof (induction "unat index" arbitrary: index tot rule: less_induct)
  case less
  have bound: "unat sid < 2 ^ LENGTH(32)"
    by (rule unsigned_less)
  define step where "step = index div 2 + index mod 2"
  have ustep: "unat step = unat index div 2 + unat index mod 2"
    by (simp add: step_def word_half_facts)
  have "unat index \<noteq> 0 \<or> unat sid mod 2 = 1"
    using less.prems(2) unat_eq_zero by blast
  then have inrange: "unat tot < unat sid"
    using less.prems(1) by linarith
  then obtain p where p: "ps ! unat tot = Some p" and cmp: "\<not> prio < p"
    using assms(1) by blast
  have sum: "unat index div 2 + unat index mod 2 \<le> unat index"
    by presburger
  have "unat tot + unat step \<le> unat sid"
    using less.prems(1) ustep sum by linarith
  then have "unat tot + unat step < 2 ^ LENGTH(32)"
    using bound by linarith
  then have "unat (tot + step) = unat tot + unat step"
    by (simp only: unat_add_lem [THEN iffD1])
  then have utot: "unat (tot + step) = unat tot + (unat index div 2 + unat index mod 2)"
    by (simp only: ustep)
  note unfold = search_slot_step_up [OF p cmp, where sid = sid and index = index, folded step_def]
  show ?case
  proof (cases "index div 2 = 0")
    case True
    then have z: "unat index div 2 = 0"
      by (rule half_zero)
    then have "unat index mod 2 = unat index"
      by presburger
    then have "unat (tot + step) + unat sid mod 2 = unat sid"
      using utot z less.prems(1) by linarith
    then have eq: "unat (tot + step) + unat (sid mod 2) = unat sid"
      by (simp only: word_half_facts(2))
    then have "unat (tot + step) + unat (sid mod 2) < 2 ^ LENGTH(32)"
      using bound by linarith
    then have "unat (tot + step + sid mod 2) = unat (tot + step) + unat (sid mod 2)"
      by (simp only: unat_add_lem [THEN iffD1])
    then have "unat (tot + step + sid mod 2) = unat sid"
      using eq by linarith
    then have "tot + step + sid mod 2 = sid"
      by (simp only: word_unat_eq_iff)
    then show ?thesis
      using True by (simp only: unfold) simp
  next
    case False
    have lt: "unat (index div 2) < unat index"
      using False by (rule half_lt)
    have "unat index = 2 * (unat index div 2) + unat index mod 2"
      by presburger
    then have "unat (tot + step) + unat index div 2 + unat sid mod 2 = unat sid"
      using utot less.prems(1) by linarith
    then have inv: "unat (tot + step) + unat (index div 2) + unat sid mod 2 = unat sid"
      by (simp only: word_half_facts(1))
    have "search_slot ps prio sid (index div 2) (tot + step) = Some sid"
      using False by (intro less.hyps [OF lt inv]) simp
    then show ?thesis
      using False by (simp only: unfold) simp
  qed
qed

lemma slot_last:
  assumes "\<And>i. i < unat sid \<Longrightarrow> \<exists>p. ps ! i = Some p \<and> \<not> prio < p"
  shows "(if sid > 0 then search_slot ps prio sid (sid div 2) (sid div 2) else Some (sid div 2)) = Some sid"
proof (cases "sid > 0")
  case True
  then have pos: "unat sid \<noteq> 0"
    by (simp add: unat_eq_zero)
  have "unat sid div 2 + unat sid div 2 + unat sid mod 2 = unat sid"
    by presburger
  then have inv: "unat (sid div 2) + unat (sid div 2) + unat sid mod 2 = unat sid"
    by (simp only: word_half_facts(1))
  have "sid div 2 \<noteq> 0 \<or> unat sid mod 2 = 1"
  proof (cases "sid div 2 = 0")
    case True
    then have "unat sid div 2 = 0"
      by (rule half_zero)
    then have "unat sid mod 2 = 1"
      using pos by presburger
    then show ?thesis by simp
  next
    case False
    then show ?thesis by simp
  qed
  then have "search_slot ps prio sid (sid div 2) (sid div 2) = Some sid"
    using assms inv by (intro search_slot_last) simp_all
  then show ?thesis
    using True by simp
next
  case False
  then have "sid = 0"
    using word_neq_0_conv by blast
  then show ?thesis
    by simp
qed

lemma slot_first:
  assumes "\<And>i. i < unat sid \<Longrightarrow> \<exists>p. ps ! i = Some p \<and> prio < p"
  shows "(if sid > 0 then search_slot ps prio sid (sid div 2) (sid div 2) else Some (sid div 2)) = Some 0"
proof (cases "sid > 0")
  case True
  then have pos: "unat sid \<noteq> 0"
    by (simp add: unat_eq_zero)
  then have "unat sid div 2 < unat sid"
    by presburger
  then have "unat (sid div 2) < unat sid"
    by (simp add: word_half_facts(1))
  then have "search_slot ps prio sid (sid div 2) (sid div 2) = Some 0"
    using assms by (intro search_slot_first) simp_all
  then show ?thesis
    using True by simp
next
  case False
  then have "sid = 0"
    using word_neq_0_conv by blast
  then show ?thesis
    by simp
qed

lemma shift_step_list:
  assumes "tot \<le> j" and "Suc j < length xs"
  shows "take (Suc tot) (xs[Suc j := xs ! j]) @ take (j - tot) (drop tot (xs[Suc j := xs ! j]))
           @ drop (Suc j) (xs[Suc j := xs ! j])
         = take (Suc tot) xs @ take (Suc j - tot) (drop tot xs) @ drop (Suc (Suc j)) xs"
proof -
  have a: "take (Suc tot) (xs[Suc j := xs ! j]) = take (Suc tot) xs"
    using assms(1) by simp
  have "drop tot (xs[Suc j := xs ! j]) = (drop tot xs)[Suc j - tot := xs ! j]"
    using assms(1) by (simp add: drop_update_swap)
  then have b: "take (j - tot) (drop tot (xs[Suc j := xs ! j])) = take (j - tot) (drop tot xs)"
    using assms(1) by simp
  have c: "drop (Suc j) (xs[Suc j := xs ! j]) = xs ! j # drop (Suc (Suc j)) xs"
    using assms(2) by (metis Cons_nth_drop_Suc drop_update_cancel length_list_update lessI nth_list_update_eq)
  have "j - tot < length (drop tot xs)"
    using assms by simp
  then have "take (Suc (j - tot)) (drop tot xs) = take (j - tot) (drop tot xs) @ [drop tot xs ! (j - tot)]"
    by (rule take_Suc_conv_app_nth)
  moreover have "drop tot xs ! (j - tot) = xs ! j"
    using assms by simp
  moreover have "Suc j - tot = Suc (j - tot)"
    using assms(1) by simp
  ultimately have d: "take (Suc j - tot) (drop tot xs) = take (j - tot) (drop tot xs) @ [xs ! j]"
    by simp
  show ?thesis
    by (simp only: a b c d) simp
qed

lemma shift_systems_lists:
  assumes "tot \<le> n" and "n < length (m_supplements sm)" and "n < length (m_stores sm)"
    and "\<And>j. tot \<le> j \<Longrightarrow> j < n \<Longrightarrow> index_ref (m_supplements sm ! j) \<noteq> None"
  shows "\<exists>ids' sm'. shift_systems n tot (ids, sm) = Some (ids', sm')
           \<and> m_supplements sm' =
               take (Suc tot) (m_supplements sm) @ take (n - tot) (drop tot (m_supplements sm))
                 @ drop (Suc n) (m_supplements sm)
           \<and> m_stores sm' =
               take (Suc tot) (m_stores sm) @ take (n - tot) (drop tot (m_stores sm))
                 @ drop (Suc n) (m_stores sm)"
  using assms
proof (induction n arbitrary: ids sm)
  case 0
  then show ?case
    by simp
next
  case (Suc j)
  show ?case
  proof (cases "tot = Suc j")
    case True
    then show ?thesis
      by simp
  next
    case False
    then have le: "tot \<le> j"
      using Suc.prems(1) by simp
    define sm1 where "sm1 = moveTo j (Suc j) sm"
    have sup1: "m_supplements sm1 = (m_supplements sm)[Suc j := m_supplements sm ! j]"
      and st1: "m_stores sm1 = (m_stores sm)[Suc j := m_stores sm ! j]"
      by (simp_all add: sm1_def moveTo_def)
    have "index_ref (m_supplements sm ! j) \<noteq> None"
      using le by (intro Suc.prems(4)) simp_all
    then obtain U where U: "index_ref (m_supplements sm ! j) = Some U"
      by blast
    have "m_supplements sm1 ! Suc j = m_supplements sm ! j"
      using Suc.prems(2) by (simp add: sup1)
    then have U1: "index_ref (m_supplements sm1 ! Suc j) = Some U"
      using U by simp
    have unfold: "shift_systems (Suc j) tot (ids, sm) = shift_systems j tot (ids(U := of_nat (Suc j)), sm1)"
      using le U1 by (simp add: Let_def sm1_def [symmetric])
    have l1: "j < length (m_supplements sm1)" and l2: "j < length (m_stores sm1)"
      using Suc.prems by (simp_all add: sup1 st1)
    have refs: "\<And>i. tot \<le> i \<Longrightarrow> i < j \<Longrightarrow> index_ref (m_supplements sm1 ! i) \<noteq> None"
    proof -
      fix i assume i: "tot \<le> i" "i < j"
      then have "m_supplements sm1 ! i = m_supplements sm ! i"
        by (simp add: sup1)
      moreover have "index_ref (m_supplements sm ! i) \<noteq> None"
        using i by (intro Suc.prems(4)) simp_all
      ultimately show "index_ref (m_supplements sm1 ! i) \<noteq> None"
        by simp
    qed
    obtain ids' sm' where ih: "shift_systems j tot (ids(U := of_nat (Suc j)), sm1) = Some (ids', sm')"
        "m_supplements sm' =
           take (Suc tot) (m_supplements sm1) @ take (j - tot) (drop tot (m_supplements sm1))
             @ drop (Suc j) (m_supplements sm1)"
        "m_stores sm' =
           take (Suc tot) (m_stores sm1) @ take (j - tot) (drop tot (m_stores sm1))
             @ drop (Suc j) (m_stores sm1)"
      using Suc.IH [OF le l1 l2 refs, of "ids(U := of_nat (Suc j))"] by blast
    have a: "m_supplements sm' =
               take (Suc tot) (m_supplements sm) @ take (Suc j - tot) (drop tot (m_supplements sm))
                 @ drop (Suc (Suc j)) (m_supplements sm)"
      using Suc.prems(2) le by (simp only: ih(2) sup1 shift_step_list)
    have b: "m_stores sm' =
               take (Suc tot) (m_stores sm) @ take (Suc j - tot) (drop tot (m_stores sm))
                 @ drop (Suc (Suc j)) (m_stores sm)"
      using Suc.prems(3) le by (simp only: ih(3) st1 shift_step_list)
    show ?thesis
      using ih(1) a b by (simp only: unfold) blast
  qed
qed

lemma update_shifted:
  assumes "tot < length xs"
  shows "(take (Suc tot) xs @ rest)[tot := y] = take tot xs @ [y] @ rest"
proof -
  have "take (Suc tot) xs = take tot xs @ [xs ! tot]"
    using assms by (rule take_Suc_conv_app_nth)
  moreover have "length (take tot xs) = tot"
    using assms by simp
  ultimately show ?thesis
    by (metis append_Cons append_Nil append_assoc list_update_length)
qed

lemma createSystem_lists:
  assumes n: "unat (ids T) < length (m_supplements sm)"
    and same: "length (m_stores sm) = length (m_supplements sm)"
    and slot: "(if ids T > 0
                then search_slot (map priority (m_supplements sm)) prio (ids T) (ids T div 2) (ids T div 2)
                else Some (ids T div 2)) = Some slot"
    and le: "unat slot \<le> unat (ids T)"
    and refs: "\<And>j. unat slot \<le> j \<Longrightarrow> j < unat (ids T) \<Longrightarrow> index_ref (m_supplements sm ! j) \<noteq> None"
  shows "\<exists>ids' sm'. SystemManager_createSystem T inst prio ids sm = Some (ids', sm')
           \<and> m_supplements sm' =
               take (unat slot) (m_supplements sm)
                 @ [(m_supplements sm ! unat (ids T))\<lparr>priority := Some prio, index_ref := Some T\<rparr>]
                 @ take (unat (ids T) - unat slot) (drop (unat slot) (m_supplements sm))
                 @ drop (Suc (unat (ids T))) (m_supplements sm)
           \<and> m_stores sm' =
               take (unat slot) (m_stores sm)
                 @ [initialize inst (m_stores sm ! unat (ids T))]
                 @ take (unat (ids T) - unat slot) (drop (unat slot) (m_stores sm))
                 @ drop (Suc (unat (ids T))) (m_stores sm)
           \<and> ids' T = slot"
proof -
  have n2: "unat (ids T) < length (m_stores sm)"
    using n same by simp
  obtain ids1 sm1 where sh: "shift_systems (unat (ids T)) (unat slot) (ids, sm) = Some (ids1, sm1)"
    and l1: "m_supplements sm1 =
           take (Suc (unat slot)) (m_supplements sm)
             @ take (unat (ids T) - unat slot) (drop (unat slot) (m_supplements sm))
             @ drop (Suc (unat (ids T))) (m_supplements sm)"
    and l2: "m_stores sm1 =
           take (Suc (unat slot)) (m_stores sm)
             @ take (unat (ids T) - unat slot) (drop (unat slot) (m_stores sm))
             @ drop (Suc (unat (ids T))) (m_stores sm)"
    using shift_systems_lists [OF le n n2 refs, of ids] by blast
  have lt1: "unat slot < length (m_supplements sm)" and lt2: "unat slot < length (m_stores sm)"
    using le n n2 by simp_all
  have len: "unat slot < length (m_stores sm1)"
    using lt2 by (simp add: l2)
  define sm' where "sm' = sm1\<lparr>m_supplements := (m_supplements sm1)
                        [unat slot := (m_supplements sm ! unat (ids T))\<lparr>priority := Some prio, index_ref := Some T\<rparr>],
                      m_stores := (m_stores sm1)
                        [unat slot := initialize inst (m_stores sm ! unat (ids T))]\<rparr>"
  have res: "SystemManager_createSystem T inst prio ids sm = Some (ids1(T := slot), sm')"
    using len by (simp add: SystemManager_createSystem_def Let_def slot sh sm'_def)
  have a: "m_supplements sm' =
           take (unat slot) (m_supplements sm)
             @ [(m_supplements sm ! unat (ids T))\<lparr>priority := Some prio, index_ref := Some T\<rparr>]
             @ take (unat (ids T) - unat slot) (drop (unat slot) (m_supplements sm))
             @ drop (Suc (unat (ids T))) (m_supplements sm)"
    unfolding sm'_def by (simp only: SystemManager.simps l1 update_shifted [OF lt1]) simp
  have b: "m_stores sm' =
           take (unat slot) (m_stores sm)
             @ [initialize inst (m_stores sm ! unat (ids T))]
             @ take (unat (ids T) - unat slot) (drop (unat slot) (m_stores sm))
             @ drop (Suc (unat (ids T))) (m_stores sm)"
    unfolding sm'_def by (simp only: SystemManager.simps l2 update_shifted [OF lt2]) simp
  have "(ids1(T := slot)) T = slot"
    by simp
  then show ?thesis
    using res a b by blast
qed

lemma addRequirement_keeps:
  "map priority (m_supplements (addRequirement c sid sm)) = map priority (m_supplements sm)
   \<and> map index_ref (m_supplements (addRequirement c sid sm)) = map index_ref (m_supplements sm)
   \<and> m_stores (addRequirement c sid sm) = m_stores sm"
proof (cases "sid < length (m_supplements sm)")
  case True
  then show ?thesis
    by (simp add: addRequirement_def Let_def map_update list_update_same_conv)
next
  case False
  then show ?thesis
    by (simp add: addRequirement_def Let_def list_update_beyond not_less)
qed

lemma addRequirements_keeps:
  "map priority (m_supplements (addRequirements args sid sm)) = map priority (m_supplements sm)
   \<and> map index_ref (m_supplements (addRequirements args sid sm)) = map index_ref (m_supplements sm)
   \<and> m_stores (addRequirements args sid sm) = m_stores sm"
  unfolding addRequirements_def
  by (induction args arbitrary: sm) (simp_all add: addRequirement_keeps)

lemma insertEntity_keeps:
  "map priority (m_supplements (insertEntity e i sm)) = map priority (m_supplements sm)
   \<and> map index_ref (m_supplements (insertEntity e i sm)) = map index_ref (m_supplements sm)
   \<and> m_stores (insertEntity e i sm) = m_stores sm"
proof (cases "i < length (m_supplements sm)")
  case True
  then show ?thesis
    by (simp add: insertEntity_def insert_entity_def Let_def case_prod_beta map_update list_update_same_conv)
next
  case False
  then show ?thesis
    by (simp add: insertEntity_def list_update_beyond not_less)
qed

lemma insert_matching_keeps:
  "map priority (m_supplements
      (fold (\<lambda>i sm'. if active_bit i then (if bitmapMatches sid (bm i) sm' then insertEntity (ent i) sid sm' else sm') else sm') js sm))
     = map priority (m_supplements sm)
   \<and> map index_ref (m_supplements
      (fold (\<lambda>i sm'. if active_bit i then (if bitmapMatches sid (bm i) sm' then insertEntity (ent i) sid sm' else sm') else sm') js sm))
     = map index_ref (m_supplements sm)
   \<and> m_stores
      (fold (\<lambda>i sm'. if active_bit i then (if bitmapMatches sid (bm i) sm' then insertEntity (ent i) sid sm' else sm') else sm') js sm)
     = m_stores sm"
  by (induction js arbitrary: sm) (simp_all add: insertEntity_keeps)

lemma SystemManager_update_same:
  "idCount \<le> length (m_supplements sm) \<Longrightarrow> SystemManager_update idCount fIndex n sm = sm"
  by (simp add: SystemManager_update_def)

lemma createSystem_facade:
  assumes "SystemManager_idCount s \<le> length (m_supplements (m_systemManager s))"
    and "SystemManager_createSystem T inst prio (SystemType_id s) (m_systemManager s) = Some (ids', sm')"
  shows "\<exists>s'. createSystem T args inst prio s = Some s'
           \<and> map priority (m_supplements (m_systemManager s')) = map priority (m_supplements sm')
           \<and> map index_ref (m_supplements (m_systemManager s')) = map index_ref (m_supplements sm')
           \<and> m_stores (m_systemManager s') = m_stores sm'
           \<and> functionIndex s' = functionIndex s
           \<and> SystemManager_idCount s' = SystemManager_idCount s
           \<and> SystemType_id s' = ids'"
  using assms
  by (simp add: createSystem_def Let_def SystemManager_update_same insert_matching_keeps addRequirements_keeps)

lemma slots_zip:
  "map (\<lambda>(supp, store). (index_ref supp, priority supp, store)) (zip sups stores) =
     zip (map index_ref sups) (zip (map priority sups) stores)"
proof (induction sups arbitrary: stores)
  case Nil
  then show ?case by simp
next
  case (Cons a sups)
  then show ?case by (cases stores) simp_all
qed

lemma system_slots_zip:
  "system_slots m s =
     zip (take m (map index_ref (m_supplements (m_systemManager s))))
       (zip (take m (map priority (m_supplements (m_systemManager s))))
          (take m (m_stores (m_systemManager s))))"
  by (simp add: system_slots_def slots_zip take_map)

lemma placed_last:
  "n < length xs \<Longrightarrow>
   take (Suc n) (take n xs @ [y] @ take (n - n) (drop n xs) @ drop (Suc n) xs) = take n xs @ [y]"
  by simp

lemma placed_first:
  "n < length xs \<Longrightarrow>
   take (Suc n) (take 0 xs @ [y] @ take (n - 0) (drop 0 xs) @ drop (Suc n) xs) = y # take n xs"
  by simp

lemma placed_rest:
  assumes "slot \<le> n" and "n < length xs"
  shows "drop (Suc n) (take slot xs @ [y] @ take (n - slot) (drop slot xs) @ drop (Suc n) xs) = drop (Suc n) xs"
    and "length (take slot xs @ [y] @ take (n - slot) (drop slot xs) @ drop (Suc n) xs) = length xs"
proof -
  define front where "front = take slot xs @ [y] @ take (n - slot) (drop slot xs)"
  have lf: "length front = Suc n"
    using assms by (simp add: front_def)
  have "drop (length front) (front @ drop (Suc n) xs) = drop (Suc n) xs"
    by simp
  then show "drop (Suc n) (take slot xs @ [y] @ take (n - slot) (drop slot xs) @ drop (Suc n) xs) = drop (Suc n) xs"
    by (simp only: lf) (simp add: front_def)
  show "length (take slot xs @ [y] @ take (n - slot) (drop slot xs) @ drop (Suc n) xs) = length xs"
    using assms by simp
qed

lemma run_calls_created:
  assumes created: "systems_created n s"
    and kind: "containsFunction (ucast k) (functionIndex s)"
  shows "run_calls k s = map (\<lambda>(T, p, store). (T, p, m_functions store ! unat k)) (system_slots n s)"
proof -
  define stores where "stores = m_stores (m_systemManager s)"
  define sups where "sups = m_supplements (m_systemManager s)"
  define P where "P = (\<lambda>i. initialized (stores ! i))"
  have same: "length stores = length sups" and n: "n \<le> length sups"
    and init: "list_all initialized (take n stores)"
    and later: "list_all (\<lambda>store. \<not> initialized store) (drop n stores)"
    using created by (simp_all add: systems_created_def stores_def sups_def)
  have split: "[0..<length stores] = [0..<n] @ [n..<length stores]"
    using n same by (metis le_add_diff_inverse upt_add_eq_append zero_le)
  have none: "filter P [n..<length stores] = []"
  proof -
    have "\<forall>i \<in> set [n..<length stores]. \<not> P i"
    proof
      fix i assume "i \<in> set [n..<length stores]"
      then have i: "n \<le> i" "i < length stores"
        by simp_all
      then have "stores ! i = drop n stores ! (i - n)"
        by simp
      moreover have "i - n < length (drop n stores)"
        using i by simp
      ultimately have "stores ! i \<in> set (drop n stores)"
        by (metis nth_mem)
      then show "\<not> P i"
        using later by (simp add: list_all_iff P_def)
    qed
    then show ?thesis
      by (simp only: filter_empty_conv)
  qed
  have every: "filter P [0..<n] = [0..<n]"
  proof -
    have "\<forall>i \<in> set [0..<n]. P i"
    proof
      fix i assume "i \<in> set [0..<n]"
      then have i: "i < n"
        by simp
      then have "stores ! i = take n stores ! i"
        by simp
      moreover have "i < length (take n stores)"
        using i n same by simp
      ultimately have "stores ! i \<in> set (take n stores)"
        by (metis nth_mem)
      then show "P i"
        using init by (simp add: list_all_iff P_def)
    qed
    then show ?thesis
      by (simp only: filter_True)
  qed
  have calls: "snd (run k s) = map (\<lambda>i. (i, m_functions (stores ! i) ! unat k)) [0..<n]"
    using kind
    by (simp add: run_def runFunction_def stores_def [symmetric] P_def [symmetric])
       (simp only: split filter_append none every append_Nil2)
  have "run_calls k s = map (\<lambda>i. (index_ref (sups ! i), priority (sups ! i), m_functions (stores ! i) ! unat k)) [0..<n]"
    by (simp add: run_calls_def calls sups_def [symmetric] comp_def)
  also have "\<dots> = map (\<lambda>(T, p, store). (T, p, m_functions store ! unat k)) (system_slots n s)"
    using n same
    by (intro nth_equalityI) (simp_all add: system_slots_def stores_def [symmetric] sups_def [symmetric])
  finally show ?thesis .
qed

lemma slots_priorities:
  assumes "systems_created n s"
  shows "map (\<lambda>(T, p, store). p) (system_slots n s) = system_priorities n s"
proof -
  have "length (m_stores (m_systemManager s)) = length (m_supplements (m_systemManager s))"
    and "n \<le> length (m_supplements (m_systemManager s))"
    using assms by (simp_all add: systems_created_def)
  then show ?thesis
    by (intro nth_equalityI) (simp_all add: system_slots_def system_priorities_def)
qed

lemma both_set:
  "list_all (\<lambda>supp. priority supp \<noteq> None \<and> index_ref supp \<noteq> None) xs \<longleftrightarrow>
     list_all (\<lambda>p. p \<noteq> None) (map priority xs) \<and> list_all (\<lambda>r. r \<noteq> None) (map index_ref xs)"
  by (induction xs) auto

lemma zip3_snoc:
  assumes "length xs = length ys" and "length ys = length zs"
  shows "zip (xs @ [a]) (zip (ys @ [b]) (zs @ [c])) = zip xs (zip ys zs) @ [(a, b, c)]"
  using assms by simp

text \<open>
  C2, amended: \<^verbatim>\<open>createSystem\<close> keeps the systems already in the array in their
  relative order and places a new system whose priority is greater than or equal to
  every existing one behind them (so equal priorities stay in creation order), and one
  whose priority is less than every existing one in front of them. For such a priority
  the array stays sorted by non-decreasing priority, lowest first, and a following
  \<^verbatim>\<open>run\<close> calls the callback of every system, in the order of the array: the
  calls made before, in their order, with the call of the new system behind or in
  front of them. The systems are created in the order of their static ids: the new
  system has the static id \<^verbatim>\<open>n\<close>, the \<^verbatim>\<open>n\<close> slots below it hold the systems
  created before, with the priorities \<^verbatim>\<open>ps\<close>, and no later slot holds one. The call
  returns, and the same holds afterwards for \<^verbatim>\<open>n + 1\<close> slots.
\<close>

theorem C2_extreme_priority_keeps_ascending_order:
  assumes created: "systems_created n s"
    and next_id: "unat (SystemType_id s T) = n"
    and room: "n < length (m_supplements (m_systemManager s))"
    and prios: "system_priorities n s = map Some ps"
    and sorted: "sorted ps"
    and extreme: "(\<forall>p \<in> set ps. p \<le> prio) \<or> (\<forall>p \<in> set ps. prio < p)"
    and kind: "containsFunction (ucast k) (functionIndex s)"
  shows "\<exists>s'. createSystem T args inst prio s = Some s'
           \<and> system_slots (Suc n) s' =
               (if \<forall>p \<in> set ps. p \<le> prio
                then system_slots n s @ [(Some T, Some prio, initialize inst (m_stores (m_systemManager s) ! n))]
                else (Some T, Some prio, initialize inst (m_stores (m_systemManager s) ! n)) # system_slots n s)
           \<and> system_priorities (Suc n) s' =
               map Some (if \<forall>p \<in> set ps. p \<le> prio then ps @ [prio] else prio # ps)
           \<and> sorted (if \<forall>p \<in> set ps. p \<le> prio then ps @ [prio] else prio # ps)
           \<and> run_calls k s' =
               (if \<forall>p \<in> set ps. p \<le> prio
                then run_calls k s @ [(Some T, Some prio, m_functions (m_stores (m_systemManager s) ! n) ! unat k)]
                else (Some T, Some prio, m_functions (m_stores (m_systemManager s) ! n) ! unat k) # run_calls k s)
           \<and> run_priorities k s' = system_priorities (Suc n) s'
           \<and> unat (SystemType_id s' T) = (if \<forall>p \<in> set ps. p \<le> prio then n else 0)
           \<and> systems_created (Suc n) s'"
proof -
  define sm where "sm = m_systemManager s"
  define ids where "ids = SystemType_id s"
  define sups where "sups = m_supplements sm"
  define stores where "stores = m_stores sm"
  define R where "R = map index_ref sups"
  define P where "P = map priority sups"
  define new_store where "new_store = initialize inst (stores ! n)"
  define behind where "behind \<longleftrightarrow> (\<forall>p \<in> set ps. p \<le> prio)"
  define slot where "slot = (if behind then ids T else 0)"
  define g where "g = (\<lambda>(U :: nat option, p :: real option, store :: system). (U, p, m_functions store ! unat k))"
  have same: "length stores = length sups"
    and all: "SystemManager_idCount s \<le> length sups"
    and both: "list_all (\<lambda>supp. priority supp \<noteq> None \<and> index_ref supp \<noteq> None) (take n sups)"
    and init: "list_all initialized (take n stores)"
    and later: "list_all (\<lambda>store. \<not> initialized store) (drop n stores)"
    using created by (simp_all add: systems_created_def sups_def stores_def sm_def)
  have n: "n < length sups"
    using room by (simp add: sups_def sm_def)
  have n2: "n < length stores"
    using n same by simp
  have idn: "unat (ids T) = n"
    using next_id by (simp add: ids_def)
  have takeP: "take n P = map Some ps"
    using prios by (simp add: system_priorities_def P_def take_map sups_def sm_def)
  have lps: "length ps = n"
  proof -
    have "length (take n P) = length (map Some ps)"
      by (simp only: takeP)
    then show ?thesis
      using n by (simp add: P_def)
  qed
  have nth_ps: "P ! i = Some (ps ! i)" if "i < n" for i
  proof -
    have "take n P ! i = map Some ps ! i"
      by (simp only: takeP)
    then show ?thesis
      using that lps by simp
  qed
  have refsR: "list_all (\<lambda>r. r \<noteq> None) (take n R)"
    using both unfolding both_set R_def take_map by (rule conjunct2)
  have refs: "index_ref (sups ! j) \<noteq> None" if "j < n" for j
  proof -
    have "j < length (take n R)"
      using that n by (simp add: R_def)
    then have "take n R ! j \<noteq> None"
      using refsR by (simp add: list_all_length)
    then show ?thesis
      using that n by (simp add: R_def)
  qed
  have slot_eq: "(if ids T > 0 then search_slot P prio (ids T) (ids T div 2) (ids T div 2)
                  else Some (ids T div 2)) = Some slot"
  proof (cases behind)
    case True
    have "\<exists>p. P ! i = Some p \<and> \<not> prio < p" if "i < unat (ids T)" for i
    proof -
      have i: "i < n"
        using that idn by simp
      then have "ps ! i \<in> set ps"
        using lps by simp
      then have "ps ! i \<le> prio"
        using True by (simp add: behind_def)
      then show ?thesis
        using nth_ps [OF i] by (simp add: not_less)
    qed
    then have "(if ids T > 0 then search_slot P prio (ids T) (ids T div 2) (ids T div 2)
                else Some (ids T div 2)) = Some (ids T)"
      by (rule slot_last)
    then show ?thesis
      using True by (simp only: slot_def if_True)
  next
    case False
    then have less: "\<forall>p \<in> set ps. prio < p"
      using extreme by (simp only: behind_def) blast
    have "\<exists>p. P ! i = Some p \<and> prio < p" if "i < unat (ids T)" for i
    proof -
      have i: "i < n"
        using that idn by simp
      then have "ps ! i \<in> set ps"
        using lps by simp
      then have "prio < ps ! i"
        using less by simp
      then show ?thesis
        using nth_ps [OF i] by simp
    qed
    then have "(if ids T > 0 then search_slot P prio (ids T) (ids T div 2) (ids T div 2)
                else Some (ids T div 2)) = Some 0"
      by (rule slot_first)
    then show ?thesis
      using False by (simp only: slot_def if_False)
  qed
  have uslot: "unat slot = (if behind then n else 0)"
    by (simp add: slot_def idn)
  have le: "unat slot \<le> unat (ids T)"
    by (simp add: uslot idn)
  have le_n: "unat slot \<le> n"
    by (simp add: uslot)
  have c1: "unat (ids T) < length (m_supplements sm)"
    using n by (simp add: idn sups_def)
  have c2: "length (m_stores sm) = length (m_supplements sm)"
    using same by (simp add: stores_def sups_def)
  have c3: "(if ids T > 0
             then search_slot (map priority (m_supplements sm)) prio (ids T) (ids T div 2) (ids T div 2)
             else Some (ids T div 2)) = Some slot"
    using slot_eq by (simp only: P_def sups_def)
  have c5: "index_ref (m_supplements sm ! j) \<noteq> None" if "unat slot \<le> j" and "j < unat (ids T)" for j
    using refs [of j] that by (simp add: idn sups_def)
  obtain ids' sm' where cs: "SystemManager_createSystem T inst prio ids sm = Some (ids', sm')"
    and sups': "m_supplements sm' =
                  take (unat slot) sups @ [(sups ! n)\<lparr>priority := Some prio, index_ref := Some T\<rparr>]
                    @ take (n - unat slot) (drop (unat slot) sups) @ drop (Suc n) sups"
    and stores': "m_stores sm' =
                  take (unat slot) stores @ [new_store]
                    @ take (n - unat slot) (drop (unat slot) stores) @ drop (Suc n) stores"
    and idT: "ids' T = slot"
    using createSystem_lists [where ids = ids and T = T and sm = sm and slot = slot and prio = prio
        and inst = inst, OF c1 c2 c3 le c5]
    unfolding idn sups_def [symmetric] stores_def [symmetric] new_store_def [symmetric]
    by blast
  have all': "SystemManager_idCount s \<le> length (m_supplements (m_systemManager s))"
    using all by (simp add: sups_def sm_def)
  have cs': "SystemManager_createSystem T inst prio (SystemType_id s) (m_systemManager s) = Some (ids', sm')"
    using cs by (simp only: ids_def sm_def)
  obtain s' where s': "createSystem T args inst prio s = Some s'"
    and fP: "map priority (m_supplements (m_systemManager s')) = map priority (m_supplements sm')"
    and fR: "map index_ref (m_supplements (m_systemManager s')) = map index_ref (m_supplements sm')"
    and fS: "m_stores (m_systemManager s') = m_stores sm'"
    and fF: "functionIndex s' = functionIndex s"
    and fC: "SystemManager_idCount s' = SystemManager_idCount s"
    and fI: "SystemType_id s' = ids'"
    using createSystem_facade [OF all' cs', of args] by blast
  have P': "map priority (m_supplements (m_systemManager s')) =
              take (unat slot) P @ [Some prio] @ take (n - unat slot) (drop (unat slot) P) @ drop (Suc n) P"
    by (simp add: fP sups' P_def take_map drop_map)
  have R': "map index_ref (m_supplements (m_systemManager s')) =
              take (unat slot) R @ [Some T] @ take (n - unat slot) (drop (unat slot) R) @ drop (Suc n) R"
    by (simp add: fR sups' R_def take_map drop_map)
  have S': "m_stores (m_systemManager s') =
              take (unat slot) stores @ [new_store]
                @ take (n - unat slot) (drop (unat slot) stores) @ drop (Suc n) stores"
    by (simp only: fS stores')
  have nP: "n < length P" and nR: "n < length R"
    using n by (simp_all add: P_def R_def)
  have takeP': "take (Suc n) (map priority (m_supplements (m_systemManager s'))) =
                  (if behind then take n P @ [Some prio] else Some prio # take n P)"
  proof (cases behind)
    case True
    then show ?thesis
      using placed_last [OF nP, of "Some prio"] by (simp only: P' uslot if_True)
  next
    case False
    then show ?thesis
      using placed_first [OF nP, of "Some prio"] by (simp only: P' uslot if_False)
  qed
  have takeR': "take (Suc n) (map index_ref (m_supplements (m_systemManager s'))) =
                  (if behind then take n R @ [Some T] else Some T # take n R)"
  proof (cases behind)
    case True
    then show ?thesis
      using placed_last [OF nR, of "Some T"] by (simp only: R' uslot if_True)
  next
    case False
    then show ?thesis
      using placed_first [OF nR, of "Some T"] by (simp only: R' uslot if_False)
  qed
  have takeS': "take (Suc n) (m_stores (m_systemManager s')) =
                  (if behind then take n stores @ [new_store] else new_store # take n stores)"
  proof (cases behind)
    case True
    then show ?thesis
      using placed_last [OF n2, of new_store] by (simp only: S' uslot if_True)
  next
    case False
    then show ?thesis
      using placed_first [OF n2, of new_store] by (simp only: S' uslot if_False)
  qed
  have slots_s: "system_slots n s = zip (take n R) (zip (take n P) (take n stores))"
    by (simp only: system_slots_zip R_def P_def sups_def stores_def sm_def)
  have lens: "length (take n R) = length (take n P)" "length (take n P) = length (take n stores)"
    using n n2 by (simp_all add: R_def P_def)
  have A: "system_slots (Suc n) s' =
             (if behind then system_slots n s @ [(Some T, Some prio, new_store)]
              else (Some T, Some prio, new_store) # system_slots n s)"
  proof (cases behind)
    case True
    then show ?thesis
      by (simp only: system_slots_zip [of "Suc n" s'] takeP' takeR' takeS' if_True slots_s zip3_snoc [OF lens])
  next
    case False
    then show ?thesis
      by (simp only: system_slots_zip [of "Suc n" s'] takeP' takeR' takeS' if_False slots_s zip_Cons_Cons)
  qed
  have B: "system_priorities (Suc n) s' = map Some (if behind then ps @ [prio] else prio # ps)"
    by (simp add: system_priorities_def take_map [symmetric] takeP' takeP)
  have C: "sorted (if behind then ps @ [prio] else prio # ps)"
  proof (cases behind)
    case True
    then show ?thesis
      using sorted by (simp add: sorted_append behind_def)
  next
    case False
    then have "\<forall>p \<in> set ps. prio < p"
      using extreme by (simp only: behind_def) blast
    then have "\<forall>p \<in> set ps. prio \<le> p"
      by auto
    then show ?thesis
      using sorted False by simp
  qed
  have lsups': "length (m_supplements (m_systemManager s')) = length sups"
  proof -
    have "length (map priority (m_supplements (m_systemManager s'))) = length P"
      by (simp only: P' placed_rest(2) [OF le_n nP])
    then show ?thesis
      by (simp add: P_def)
  qed
  have lstores': "length (m_stores (m_systemManager s')) = length stores"
    by (simp only: S' placed_rest(2) [OF le_n n2])
  have both': "list_all (\<lambda>supp. priority supp \<noteq> None \<and> index_ref supp \<noteq> None)
                 (take (Suc n) (m_supplements (m_systemManager s')))"
  proof -
    have "list_all (\<lambda>p. p \<noteq> None) (take n P)"
      by (simp add: takeP list_all_iff)
    then have "list_all (\<lambda>p. p \<noteq> None) (take (Suc n) (map priority (m_supplements (m_systemManager s'))))"
      by (simp add: takeP')
    moreover have "list_all (\<lambda>r. r \<noteq> None) (take (Suc n) (map index_ref (m_supplements (m_systemManager s'))))"
      using refsR by (simp add: takeR')
    ultimately show ?thesis
      unfolding both_set take_map by (rule conjI)
  qed
  have inew: "initialized new_store"
    by (simp add: new_store_def initialize_def initialized_def)
  have init': "list_all initialized (take (Suc n) (m_stores (m_systemManager s')))"
    using init inew by (simp add: takeS')
  have later': "list_all (\<lambda>store. \<not> initialized store) (drop (Suc n) (m_stores (m_systemManager s')))"
  proof -
    have "drop (Suc n) (m_stores (m_systemManager s')) = drop (Suc n) stores"
      by (simp only: S' placed_rest(1) [OF le_n n2])
    moreover have "set (drop (Suc n) stores) \<subseteq> set (drop n stores)"
      by (rule set_drop_subset_set_drop) simp
    ultimately show ?thesis
      using later by (auto simp add: list_all_iff)
  qed
  have F: "systems_created (Suc n) s'"
    using n all both' init' later'
    by (simp add: systems_created_def lsups' lstores' same fC)
  have kind': "containsFunction (ucast k) (functionIndex s')"
    using kind by (simp only: fF)
  have calls': "run_calls k s' = map g (system_slots (Suc n) s')"
    unfolding g_def by (rule run_calls_created [OF F kind'])
  have calls: "run_calls k s = map g (system_slots n s)"
    unfolding g_def by (rule run_calls_created [OF created kind])
  have gnew: "g (Some T, Some prio, new_store) = (Some T, Some prio, m_functions (stores ! n) ! unat k)"
    by (simp add: g_def new_store_def initialize_def)
  have D: "run_calls k s' =
             (if behind then run_calls k s @ [(Some T, Some prio, m_functions (stores ! n) ! unat k)]
              else (Some T, Some prio, m_functions (stores ! n) ! unat k) # run_calls k s)"
    by (simp add: calls' calls A gnew)
  have "run_priorities k s' = map (\<lambda>(U, p, store). p) (system_slots (Suc n) s')"
    by (simp add: run_priorities_def calls' g_def comp_def case_prod_beta)
  then have E: "run_priorities k s' = system_priorities (Suc n) s'"
    by (simp only: slots_priorities [OF F])
  have G: "unat (SystemType_id s' T) = (if behind then n else 0)"
    by (simp only: fI idT uslot)
  show ?thesis
    using s' A B C D E G F
    unfolding behind_def new_store_def stores_def sm_def
    by blast
qed

text \<open>
  The engine with one system of priority \<^verbatim>\<open>-100\<close>, to which the system of priority 0
  is added.
\<close>

theorem C2_extreme_priority_keeps_ascending_order_witness:
  "systems_created 1 engine_one_system
   \<and> system_priorities 1 engine_one_system = [Some (- 100)]
   \<and> run_calls 0 engine_one_system = [(Some 0, Some (- 100), 0)]
   \<and> system_priorities 2 engine_two_systems = [Some (- 100), Some 0]
   \<and> run_calls 0 engine_two_systems = [(Some 0, Some (- 100), 0), (Some 1, Some 0, 0)]
   \<and> systems_created 2 engine_two_systems"
proof -
  have h1: "systems_created 1 engine_one_system"
    by code_simp
  have h2: "unat (SystemType_id engine_one_system 1) = 1"
    by code_simp
  have h3: "1 < length (m_supplements (m_systemManager engine_one_system))"
    by code_simp
  have ps: "system_priorities 1 engine_one_system = [Some (- 100)]"
    by code_simp
  have h4: "system_priorities 1 engine_one_system = map Some [- 100]"
    unfolding ps by simp
  have h5: "sorted [- 100 :: real]"
    by simp
  have h6: "(\<forall>p \<in> set [- 100 :: real]. p \<le> 0) \<or> (\<forall>p \<in> set [- 100 :: real]. 0 < p)"
    by simp
  have h7: "containsFunction (ucast (0 :: 8 word)) (functionIndex engine_one_system)"
    by code_simp
  have calls: "run_calls 0 engine_one_system = [(Some 0, Some (- 100), 0)]"
    by code_simp
  have f: "m_functions (m_stores (m_systemManager engine_one_system) ! 1) ! unat (0 :: 8 word) = 0"
    by code_simp
  obtain s' where s': "createSystem 1 [0] [0, 0, 0, 0, 0, 0, 0, 0] 0 engine_one_system = Some s'"
    and B: "system_priorities (Suc 1) s' = map Some (if \<forall>p \<in> set [- 100 :: real]. p \<le> 0 then [- 100] @ [0] else 0 # [- 100])"
    and D: "run_calls 0 s' =
               (if \<forall>p \<in> set [- 100 :: real]. p \<le> 0
                then run_calls 0 engine_one_system
                       @ [(Some 1, Some 0, m_functions (m_stores (m_systemManager engine_one_system) ! 1) ! unat (0 :: 8 word))]
                else (Some 1, Some 0, m_functions (m_stores (m_systemManager engine_one_system) ! 1) ! unat (0 :: 8 word))
                       # run_calls 0 engine_one_system)"
    and F: "systems_created (Suc 1) s'"
    using C2_extreme_priority_keeps_ascending_order [OF h1 h2 h3 h4 h5 h6 h7, of "[0]" "[0, 0, 0, 0, 0, 0, 0, 0]"]
    by blast
  have eq: "s' = engine_two_systems"
    using s' unfolding engine_two_systems_created by simp
  have two: "Suc 1 = 2"
    by simp
  have B': "system_priorities 2 engine_two_systems = [Some (- 100), Some 0]"
    using B unfolding eq two by simp
  have D': "run_calls 0 engine_two_systems = [(Some 0, Some (- 100), 0), (Some 1, Some 0, 0)]"
    using D unfolding eq calls f by simp
  have F': "systems_created 2 engine_two_systems"
    using F unfolding eq two .
  show ?thesis
    using h1 ps calls B' D' F' by (intro conjI) assumption+
qed

section \<open>Encoding round trip\<close>

text \<open>
  C8: for a value \<^verbatim>\<open>v\<close> of a trivially copyable type, of \<^verbatim>\<open>std::string\<close> or of
  an arbitrarily nested \<^verbatim>\<open>std::vector\<close> of such types, \<^verbatim>\<open>object::deserialize\<close> at
  the index where \<^verbatim>\<open>object::serialize\<close> wrote \<^verbatim>\<open>v\<close> returns \<^verbatim>\<open>v\<close>. The stream has
  room for the record at that index (the callers resize it first), every string and
  vector has fewer than \<^verbatim>\<open>2^31\<close> elements (the range of the \<^verbatim>\<open>int\<close> loop counters),
  and a trivially copyable value is written with its own size as \<^verbatim>\<open>length\<close>.
\<close>

theorem C8_deserialize_serialize:
  assumes "has_type T v"
    and "lengths_fit v"
    and "index + object_length v \<le> length stream"
    and "trivial_value v \<longrightarrow> len = object_length v"
  shows "object_deserialize T (object_serialize v stream index len) index = v"
proof -
  have written: "object_serialize v stream index len = memcpy stream index (record_bytes len v)"
    using assms(3,4) by (rule object_serialize_memcpy)
  have len: "length (record_bytes len v) = object_length v"
    using assms(4) by (rule length_record_bytes)
  have "take (length (record_bytes len v)) (drop index (memcpy stream index (record_bytes len v)))
          = record_bytes len v"
    using assms(3) by (intro memcpy_slice) (simp add: len)
  then have "take (object_length v) (drop index (object_serialize v stream index len)) = record_bytes len v"
    by (simp only: written len)
  with assms(1,2,4) show ?thesis
    by (rule object_deserialize_reads)
qed

text \<open>
  The vector \<^verbatim>\<open>{"ab", ""}\<close> of strings, written at index 3 of a stream of 64 bytes with
  the length that \<^verbatim>\<open>ComponentArray::addComponent\<close> passes.
\<close>

theorem C8_deserialize_serialize_witness:
  "has_type (Vector String) (VectorV [StringV ''ab'', StringV ''''])
   \<and> lengths_fit (VectorV [StringV ''ab'', StringV ''''])
   \<and> object_deserialize (Vector String)
        (object_serialize (VectorV [StringV ''ab'', StringV '''']) (replicate 64 0) 3
           (Serialization_length (VectorV [StringV ''ab'', StringV ''''])))
        3
       = VectorV [StringV ''ab'', StringV '''']"
proof -
  have h1: "has_type (Vector String) (VectorV [StringV ''ab'', StringV ''''])"
    by simp
  have h2: "lengths_fit (VectorV [StringV ''ab'', StringV ''''])"
    by simp
  have h3: "3 + object_length (VectorV [StringV ''ab'', StringV '''']) \<le> length (replicate 64 (0 :: byte))"
    by simp
  have h4: "trivial_value (VectorV [StringV ''ab'', StringV ''''])
              \<longrightarrow> Serialization_length (VectorV [StringV ''ab'', StringV ''''])
                    = object_length (VectorV [StringV ''ab'', StringV ''''])"
    by simp
  show ?thesis
    using h1 h2 C8_deserialize_serialize [OF h1 h2 h3 h4] by blast
qed

section \<open>Setting a component of variable size\<close>


lemma of_nat_unat_size: "(of_nat (unat (w :: size_t)) :: size_t) = w"
  by simp





lemma resize_shrink: "n \<le> length v \<Longrightarrow> vector_resize n v = take n v"
  by (simp add: vector_resize_def)

















end
